theory Spec2Isabelle
  imports Complex_Main
begin

section \<open>Text primitives\<close>

text \<open>
  A Python \<^verbatim>\<open>str\<close> is modelled as a \<^typ>\<open>string\<close>; every \<^typ>\<open>char\<close> stands for
  the Unicode code point with the same number, so the texts covered are those whose code
  points are below 256. The predicates below follow \<^verbatim>\<open>str.isspace\<close>,
  \<^verbatim>\<open>str.lower\<close> and the regular-expression class \<^verbatim>\<open>\w\<close> on that range.
\<close>

definition space_codes :: "nat list" where
  "space_codes = [9, 10, 11, 12, 13, 28, 29, 30, 31, 32, 133, 160]"

definition is_space :: "char \<Rightarrow> bool" where
  "is_space c = (of_char c \<in> set space_codes)"

definition is_upper_code :: "nat \<Rightarrow> bool" where
  "is_upper_code n = ((65 \<le> n \<and> n \<le> 90) \<or> (192 \<le> n \<and> n \<le> 222 \<and> n \<noteq> 215))"

definition lower_char :: "char \<Rightarrow> char" where
  "lower_char c = (if is_upper_code (of_char c) then char_of (of_char c + (32::nat)) else c)"

definition lower :: "string \<Rightarrow> string" where
  "lower s = map lower_char s"

definition strip :: "string \<Rightarrow> string" where
  "strip s = rev (dropWhile is_space (rev (dropWhile is_space s)))"

text \<open>\<^verbatim>\<open>sub in s\<close>: \<open>sub\<close> occurs in \<open>s\<close> as a contiguous substring.\<close>

fun contains :: "string \<Rightarrow> string \<Rightarrow> bool" where
  "contains [] sub = (sub = [])"
| "contains (c # s) sub = (take (length sub) (c # s) = sub \<or> contains s sub)"

text \<open>\<^verbatim>\<open>s.startswith(p)\<close>.\<close>

definition startswith :: "string \<Rightarrow> string \<Rightarrow> bool" where
  "startswith s p = (take (length p) s = p)"

text \<open>
  \<^verbatim>\<open>s.count(sub)\<close> for a non-empty \<open>sub\<close>: the number of non-overlapping occurrences,
  scanning from the left. The recursion is on the text, cut after each occurrence.
\<close>

function count_sub :: "string \<Rightarrow> string \<Rightarrow> nat" where
  "count_sub [] sub = 0"
| "count_sub (c # s) sub =
     (if sub \<noteq> [] \<and> take (length sub) (c # s) = sub
      then Suc (count_sub (drop (length sub) (c # s)) sub)
      else count_sub s sub)"
  by pat_completeness auto
termination
  by (relation "measure (\<lambda>(s, sub). length s)") auto

text \<open>\<^verbatim>\<open>s.split('\n')\<close>: always at least one piece.\<close>

fun split_on :: "char \<Rightarrow> string \<Rightarrow> string list" where
  "split_on d [] = [[]]"
| "split_on d (c # s) =
     (if c = d then [] # split_on d s
      else (case split_on d s of [] \<Rightarrow> [[c]] | l # ls \<Rightarrow> (c # l) # ls))"

text \<open>\<^verbatim>\<open>s.split()\<close>: the maximal runs of non-whitespace characters.\<close>

function split_ws :: "string \<Rightarrow> string list" where
  "split_ws s =
     (case dropWhile is_space s of
        [] \<Rightarrow> []
      | c # r \<Rightarrow> takeWhile (\<lambda>x. \<not> is_space x) (c # r)
                 # split_ws (dropWhile (\<lambda>x. \<not> is_space x) (c # r)))"
  by pat_completeness auto
termination
proof (relation "measure length")
  show "wf (measure length)" by simp
next
  fix s :: string and c r
  assume a: "dropWhile is_space s = c # r"
  then have nsp: "\<not> is_space c"
    by (metis hd_dropWhile list.distinct(1) list.sel(1))
  have "length (dropWhile (\<lambda>x. \<not> is_space x) (c # r)) \<le> length r"
    using nsp by (simp add: length_dropWhile_le)
  moreover have "length (c # r) \<le> length s"
    using a length_dropWhile_le [of is_space s] by simp
  ultimately show "(dropWhile (\<lambda>x. \<not> is_space x) (c # r), s) \<in> measure length"
    by simp
qed

section \<open>Rule engine (config/models.py)\<close>

record rule_set =
  default_rules :: "string list"
  description :: "(string \<times> string) list"
  mandatory :: "string list"

text \<open>The table \<^verbatim>\<open>ANALYSIS_RULES\<close>, in the order of the source.\<close>

definition ANALYSIS_RULES :: "(string \<times> rule_set) list" where
  "ANALYSIS_RULES =
   [(''code'',
     \<lparr>default_rules = [''no_omissions'', ''no_overengineering'', ''maintain_style'',
                       ''practical_improvements'', ''actual_code_focus''],
      description =
        [(''no_omissions'', ''Non omettere parti di codice usando (...)''),
         (''no_overengineering'', ''No sovra-ingegnerizzazione non richiesta''),
         (''maintain_style'', ''Mantieni lo stile e l'' @ [CHR 0x27] @ ''approccio esistente''),
         (''practical_improvements'', ''Solo miglioramenti pratici e concreti''),
         (''actual_code_focus'', ''Focus sul codice effettivo, no speculazioni'')],
      mandatory = [''no_omissions'', ''maintain_style'']\<rparr>),
    (''conversation'',
     \<lparr>default_rules = [''natural_flow'', ''context_awareness'', ''appropriate_tone''],
      description =
        [(''natural_flow'', ''Mantieni un flusso naturale della conversazione''),
         (''context_awareness'', ''Considera il contesto della discussione''),
         (''appropriate_tone'', ''Usa un tono appropriato al contesto'')],
      mandatory = [''natural_flow'', ''context_awareness'']\<rparr>),
    (''data'',
     \<lparr>default_rules = [''complete_analysis'', ''show_insights'', ''statistical_relevance'',
                       ''practical_visualization''],
      description =
        [(''complete_analysis'', ''Mostra tutti gli step dell'' @ [CHR 0x27] @ ''analisi''),
         (''show_insights'', ''Evidenzia pattern e insights significativi''),
         (''statistical_relevance'', ''Includi rilevanza statistica''),
         (''practical_visualization'', ''Suggerisci visualizzazioni utili'')],
      mandatory = [''complete_analysis'', ''show_insights'']\<rparr>),
    (''json'',
     \<lparr>default_rules = [''complete_processing'', ''show_transformations'', ''structural_focus'',
                       ''optimization_suggestions''],
      description =
        [(''complete_processing'', ''Processing completo dei dati''),
         (''show_transformations'', ''Mostra trasformazioni dati''),
         (''structural_focus'', ''Focus sulla struttura dati''),
         (''optimization_suggestions'', ''Suggerimenti di ottimizzazione'')],
      mandatory = [''complete_processing'', ''structural_focus'']\<rparr>)]"

record preset =
  preset_name :: string
  preset_description :: string
  enabled_rules :: "(string \<times> string list) list"

text \<open>The table \<^verbatim>\<open>RULE_PRESETS\<close>.\<close>

definition RULE_PRESETS :: "(string \<times> preset) list" where
  "RULE_PRESETS =
   [(''conversational'',
     \<lparr>preset_name = ''Conversational Mode'',
      preset_description = ''Ottimizzato per conversazioni naturali'',
      enabled_rules =
        [(''conversation'', [''natural_flow'', ''context_awareness'', ''appropriate_tone''])]\<rparr>),
    (''technical'',
     \<lparr>preset_name = ''Technical Analysis'',
      preset_description = ''Analisi tecnica approfondita'',
      enabled_rules =
        [(''code'', [''no_omissions'', ''maintain_style'', ''practical_improvements'']),
         (''data'', [''complete_analysis'', ''show_insights''])]\<rparr>),
    (''full_stack'',
     \<lparr>preset_name = ''Full Stack Analysis'',
      preset_description = ''Analisi completa per applicazioni full stack'',
      enabled_rules =
        [(''code'', [''no_omissions'', ''maintain_style'', ''practical_improvements'']),
         (''data'', [''complete_analysis'', ''show_insights'']),
         (''api'', [''security_check'', ''performance_check''])]\<rparr>),
    (''data_pipeline'',
     \<lparr>preset_name = ''Data Pipeline'',
      preset_description = ''Analisi focalizzata sul processing dati'',
      enabled_rules =
        [(''data'', [''complete_analysis'', ''show_insights'', ''statistical_relevance'']),
         (''json'', [''complete_processing'', ''show_transformations'']),
         (''config'', [''validation_check'', ''security_check''])]\<rparr>)]"

text \<open>\<^verbatim>\<open>ANALYSIS_RULES.get(content_type, {}).get("mandatory", [])\<close> and the same for
  \<^verbatim>\<open>"default"\<close>.\<close>

definition mandatory_of :: "string \<Rightarrow> string list" where
  "mandatory_of content_type =
     (case map_of ANALYSIS_RULES content_type of None \<Rightarrow> [] | Some r \<Rightarrow> mandatory r)"

definition default_of :: "string \<Rightarrow> string list" where
  "default_of content_type =
     (case map_of ANALYSIS_RULES content_type of None \<Rightarrow> [] | Some r \<Rightarrow> default_rules r)"

text \<open>
  The loop of \<^verbatim>\<open>get_active_rules\<close> over the preset's \<^verbatim>\<open>enabled_rules\<close> items:
  the rules of every entry whose key is the content type are added.
\<close>

fun preset_rules_loop :: "string \<Rightarrow> (string \<times> string list) list \<Rightarrow> string set \<Rightarrow> string set" where
  "preset_rules_loop content_type [] acc = acc"
| "preset_rules_loop content_type ((rule_type, rules) # rest) acc =
     preset_rules_loop content_type rest
       (if rule_type = content_type then acc \<union> set rules else acc)"

text \<open>\<^verbatim>\<open>get_active_rules(content_type, preset)\<close>; \<open>None\<close> is Python's \<^verbatim>\<open>None\<close>, and
  the empty preset name is falsy like it.\<close>

definition get_active_rules :: "string \<Rightarrow> string option \<Rightarrow> string set" where
  "get_active_rules content_type preset =
     (let mandatory_rules = set (mandatory_of content_type) in
      case preset of
        None \<Rightarrow> mandatory_rules \<union> set (default_of content_type)
      | Some p \<Rightarrow>
          (case (if p = [] then None else map_of RULE_PRESETS p) of
             Some pr \<Rightarrow> mandatory_rules \<union> preset_rules_loop content_type (enabled_rules pr) {}
           | None \<Rightarrow> mandatory_rules \<union> set (default_of content_type)))"

text \<open>\<^verbatim>\<open>merge_rule_sets(rule_sets)\<close>: one loop step per category of the list.\<close>

definition merge_step :: "string set \<Rightarrow> string \<Rightarrow> string set" where
  "merge_step merged_rules rule_set =
     (case map_of ANALYSIS_RULES rule_set of
        None \<Rightarrow> merged_rules
      | Some r \<Rightarrow> (merged_rules \<union> set (mandatory r)) \<union> set (default_rules r))"

definition merge_rule_sets :: "string list \<Rightarrow> string set" where
  "merge_rule_sets rule_sets = foldl merge_step {} rule_sets"

section \<open>Code statistics (services/code_analyzer.py)\<close>

text \<open>The two docstring delimiters, three double quotes and three single quotes.\<close>

definition triple_dq :: string where
  "triple_dq = [CHR 0x22, CHR 0x22, CHR 0x22]"

definition triple_sq :: string where
  "triple_sq = [CHR 0x27, CHR 0x27, CHR 0x27]"

text \<open>
  The dictionary \<^verbatim>\<open>stats\<close> of \<^verbatim>\<open>_get_code_stats\<close>. The average is the exact quotient;
  Python rounds it to a double.
\<close>

record code_stats =
  total_lines :: nat
  empty_lines :: nat
  code_lines :: nat
  comment_lines :: nat
  docstring_lines :: nat
  avg_line_length :: rat
  max_line_length :: nat
  imports_count :: nat
  classes_count :: nat
  functions_count :: nat

text \<open>The variables of the loop: \<^verbatim>\<open>stats\<close>, \<^verbatim>\<open>total_length\<close>, \<^verbatim>\<open>in_docstring\<close> and
  \<^verbatim>\<open>docstring_quotes\<close>.\<close>

record stats_loop =
  stats :: code_stats
  total_length :: nat
  in_docstring :: bool
  docstring_quotes :: nat

text \<open>The classification at the end of the loop body (\<^verbatim>\<open># Classifica linea\<close>).\<close>

definition classify_line :: "string \<Rightarrow> bool \<Rightarrow> code_stats \<Rightarrow> code_stats" where
  "classify_line stripped in_doc st =
     (if stripped = [] then st\<lparr>empty_lines := empty_lines st + 1\<rparr>
      else if in_doc then st\<lparr>docstring_lines := docstring_lines st + 1\<rparr>
      else if startswith stripped ''#'' then st\<lparr>comment_lines := comment_lines st + 1\<rparr>
      else
        (let st1 = st\<lparr>code_lines := code_lines st + 1\<rparr> in
         if startswith stripped ''import '' \<or> startswith stripped ''from ''
         then st1\<lparr>imports_count := imports_count st1 + 1\<rparr>
         else if startswith stripped ''class ''
         then st1\<lparr>classes_count := classes_count st1 + 1\<rparr>
         else if startswith stripped ''def ''
         then st1\<lparr>functions_count := functions_count st1 + 1\<rparr>
         else st1))"

text \<open>One iteration of \<^verbatim>\<open>for line in lines\<close>; the \<^verbatim>\<open>continue\<close> of a line that holds
  only quotes is the branch that leaves the counters as they are.\<close>

definition stats_line :: "stats_loop \<Rightarrow> string \<Rightarrow> stats_loop" where
  "stats_line lp line =
     (let stripped = strip line;
          len = length line;
          lp1 = (if len > 0
                 then lp\<lparr>total_length := total_length lp + len,
                         stats := (stats lp)\<lparr>max_line_length := max (max_line_length (stats lp)) len\<rparr>\<rparr>
                 else lp)
      in if contains line triple_dq \<or> contains line triple_sq
         then
           (let dq = docstring_quotes lp1 + (count_sub line triple_dq + count_sub line triple_sq);
                lp2 = lp1\<lparr>docstring_quotes := dq, in_docstring := (dq mod 2 \<noteq> 0)\<rparr>
            in if strip (drop 3 stripped) = [] then lp2
               else lp2\<lparr>stats := classify_line stripped (in_docstring lp2) (stats lp2)\<rparr>)
         else lp1\<lparr>stats := classify_line stripped (in_docstring lp1) (stats lp1)\<rparr>)"

definition initial_stats :: "string list \<Rightarrow> code_stats" where
  "initial_stats lines =
     \<lparr>total_lines = length lines, empty_lines = 0, code_lines = 0, comment_lines = 0,
      docstring_lines = 0, avg_line_length = 0, max_line_length = 0, imports_count = 0,
      classes_count = 0, functions_count = 0\<rparr>"

definition get_code_stats :: "string \<Rightarrow> code_stats" where
  "get_code_stats code =
     (let lines = split_on CHR 0x0A code;
          lp = foldl stats_line
                 \<lparr>stats = initial_stats lines, total_length = 0, in_docstring = False,
                  docstring_quotes = 0\<rparr> lines;
          st = stats lp;
          non_empty_lines = total_lines st - empty_lines st
      in if non_empty_lines > 0
         then st\<lparr>avg_line_length := Fract (int (total_length lp)) (int non_empty_lines)\<rparr>
         else st)"

text \<open>The sum of the four line categories.\<close>

definition classified :: "code_stats \<Rightarrow> nat" where
  "classified st = empty_lines st + code_lines st + comment_lines st + docstring_lines st"

section \<open>Regular expressions (Python's \<^verbatim>\<open>re\<close> as the sources use it)\<close>

text \<open>
  The patterns of the sources are written in the datatype \<open>regex\<close> and run by a
  backtracking matcher that lists every way a pattern can match from a position, in the
  order in which Python's engine tries them (greedy repetition longest first, lazy
  repetition shortest first, alternatives left to right). The head of the list is the
  match Python reports.
\<close>

definition is_word_code :: "nat \<Rightarrow> bool" where
  "is_word_code n =
     ((48 \<le> n \<and> n \<le> 57) \<or> (65 \<le> n \<and> n \<le> 90) \<or> n = 95 \<or> (97 \<le> n \<and> n \<le> 122)
      \<or> n = 170 \<or> n = 178 \<or> n = 179 \<or> n = 181 \<or> n = 185 \<or> n = 186
      \<or> (188 \<le> n \<and> n \<le> 190) \<or> (192 \<le> n \<and> n \<le> 214) \<or> (216 \<le> n \<and> n \<le> 246)
      \<or> (248 \<le> n \<and> n \<le> 255))"

text \<open>The class \<^verbatim>\<open>\w\<close>: alphanumeric characters and the underscore.\<close>

definition is_word :: "char \<Rightarrow> bool" where
  "is_word c = is_word_code (of_char c)"

definition nl :: char where
  "nl = CHR 0x0A"

datatype atom = Chr char | Word | Space | NonSpace

text \<open>A bracket class \<^verbatim>\<open>[...]\<close> or its complement \<^verbatim>\<open>[^...]\<close>.\<close>

datatype cls = Pos "atom list" | Neg "atom list"

fun atom_match :: "atom \<Rightarrow> char \<Rightarrow> bool" where
  "atom_match (Chr d) c = (c = d)"
| "atom_match Word c = is_word c"
| "atom_match Space c = is_space c"
| "atom_match NonSpace c = (\<not> is_space c)"

fun cls_match :: "cls \<Rightarrow> char \<Rightarrow> bool" where
  "cls_match (Pos as) c = list_ex (\<lambda>a. atom_match a c) as"
| "cls_match (Neg as) c = (\<not> list_ex (\<lambda>a. atom_match a c) as)"

text \<open>
  \<open>Bol\<close> and \<open>Eol\<close> are \<^verbatim>\<open>^\<close> and \<^verbatim>\<open>$\<close> without flags, \<open>BolM\<close> and \<open>EolM\<close> the same
  under \<^verbatim>\<open>re.MULTILINE\<close>; \<open>WordB\<close> is \<^verbatim>\<open>\b\<close>, \<open>NegLook\<close> is \<^verbatim>\<open>(?!...)\<close>, \<open>Group k\<close> is the
  \<open>k\<close>-th capturing group.
\<close>

datatype regex =
    Class cls
  | Lit string
  | Eps
  | Seq regex regex
  | Alt regex regex
  | Star regex
  | LazyStar regex
  | Group nat regex
  | Bol | BolM | Eol | EolM | WordB
  | NegLook regex

text \<open>A matcher state: the position reached and the spans of the groups closed so far
  (group, start, end), the latest first.\<close>

type_synonym mstate = "nat \<times> (nat \<times> nat \<times> nat) list"

text \<open>
  Repetition of a step \<open>f\<close>. An iteration that does not advance is dropped, as Python's
  engine does, so at most \<open>length s\<close> iterations succeed and the counter, started at
  \<open>length s\<close>, never cuts a match short.
\<close>

fun star_greedy :: "(mstate \<Rightarrow> mstate list) \<Rightarrow> nat \<Rightarrow> mstate \<Rightarrow> mstate list" where
  "star_greedy f 0 st = [st]"
| "star_greedy f (Suc n) st =
     concat (map (star_greedy f n) (filter (\<lambda>st'. fst st < fst st') (f st))) @ [st]"

fun star_lazy :: "(mstate \<Rightarrow> mstate list) \<Rightarrow> nat \<Rightarrow> mstate \<Rightarrow> mstate list" where
  "star_lazy f 0 st = [st]"
| "star_lazy f (Suc n) st =
     st # concat (map (star_lazy f n) (filter (\<lambda>st'. fst st < fst st') (f st)))"

definition word_at :: "string \<Rightarrow> nat \<Rightarrow> bool" where
  "word_at s i = (i < length s \<and> is_word (s ! i))"

definition at_word_boundary :: "string \<Rightarrow> nat \<Rightarrow> bool" where
  "at_word_boundary s i = ((i > 0 \<and> word_at s (i - 1)) \<noteq> word_at s i)"

primrec ms :: "regex \<Rightarrow> string \<Rightarrow> mstate \<Rightarrow> mstate list" where
  "ms (Class c) s st =
     (if fst st < length s \<and> cls_match c (s ! fst st) then [(Suc (fst st), snd st)] else [])"
| "ms (Lit w) s st =
     (if take (length w) (drop (fst st) s) = w then [(fst st + length w, snd st)] else [])"
| "ms Eps s st = [st]"
| "ms (Seq a b) s st = concat (map (ms b s) (ms a s st))"
| "ms (Alt a b) s st = ms a s st @ ms b s st"
| "ms (Star r) s st = star_greedy (ms r s) (length s) st"
| "ms (LazyStar r) s st = star_lazy (ms r s) (length s) st"
| "ms (Group k r) s st = map (\<lambda>e. (fst e, (k, fst st, fst e) # snd e)) (ms r s st)"
| "ms Bol s st = (if fst st = 0 then [st] else [])"
| "ms BolM s st =
     (if fst st = 0 \<or> (fst st \<le> length s \<and> s ! (fst st - 1) = nl) then [st] else [])"
| "ms Eol s st =
     (if fst st = length s \<or> (Suc (fst st) = length s \<and> s ! fst st = nl) then [st] else [])"
| "ms EolM s st =
     (if fst st = length s \<or> (fst st < length s \<and> s ! fst st = nl) then [st] else [])"
| "ms WordB s st = (if at_word_boundary s (fst st) then [st] else [])"
| "ms (NegLook r) s st = (if ms r s st = [] then [st] else [])"

text \<open>
  \<^verbatim>\<open>re.search\<close> from position \<open>i\<close>: the first start position, from the left, at which
  the pattern matches, with the first match there; \<open>k\<close> counts the start positions left.
\<close>

fun search_at :: "regex \<Rightarrow> string \<Rightarrow> nat \<Rightarrow> nat \<Rightarrow> (nat \<times> mstate) option" where
  "search_at r s i 0 = (case ms r s (i, []) of [] \<Rightarrow> None | m # _ \<Rightarrow> Some (i, m))"
| "search_at r s i (Suc k) =
     (case ms r s (i, []) of [] \<Rightarrow> search_at r s (Suc i) k | m # _ \<Rightarrow> Some (i, m))"

definition re_search :: "regex \<Rightarrow> string \<Rightarrow> (nat \<times> mstate) option" where
  "re_search r s = search_at r s 0 (length s)"

text \<open>\<^verbatim>\<open>if re.search(pattern, text)\<close>.\<close>

definition matches :: "regex \<Rightarrow> string \<Rightarrow> bool" where
  "matches r s = (re_search r s \<noteq> None)"

text \<open>\<^verbatim>\<open>for pattern in patterns: if re.search(pattern, text): return True\<close>.\<close>

fun any_match :: "regex list \<Rightarrow> string \<Rightarrow> bool" where
  "any_match [] s = False"
| "any_match (p # ps) s = (if matches p s then True else any_match ps s)"

text \<open>Shorthands: \<^verbatim>\<open>r+\<close>, \<^verbatim>\<open>r?\<close>, \<^verbatim>\<open>\w\<close>, \<^verbatim>\<open>\s\<close>, \<^verbatim>\<open>.\<close>, \<^verbatim>\<open>[\s\S]\<close>, \<^verbatim>\<open>\s{2,}\<close>, a sequence and
  an alternative of literals.\<close>

definition Plus :: "regex \<Rightarrow> regex" where
  "Plus r = Seq r (Star r)"

definition Opt :: "regex \<Rightarrow> regex" where
  "Opt r = Alt r Eps"

definition W :: regex where
  "W = Class (Pos [Word])"

definition S :: regex where
  "S = Class (Pos [Space])"

definition Dot :: regex where
  "Dot = Class (Neg [Chr nl])"

definition AnyChar :: regex where
  "AnyChar = Class (Pos [Space, NonSpace])"

definition S2 :: regex where
  "S2 = Seq S (Seq S (Star S))"

fun seqs :: "regex list \<Rightarrow> regex" where
  "seqs [] = Eps"
| "seqs [r] = r"
| "seqs (r # rs) = Seq r (seqs rs)"

fun alts :: "regex list \<Rightarrow> regex" where
  "alts [] = NegLook Eps"
| "alts [r] = r"
| "alts (r # rs) = Alt r (alts rs)"

definition words :: "string list \<Rightarrow> regex" where
  "words ws = alts (map Lit ws)"

section \<open>Content classifier (config/models.py)\<close>

text \<open>
  The last alternative of the fourth conversational pattern is, in the source file,
  \<^verbatim>\<open>perch\<close> followed by the two characters U+221A and U+00A9; the first lies outside the
  modelled range, so on the texts covered the alternative is \<^verbatim>\<open>perch\<close> followed by a
  character that never matches.
\<close>

definition conversation_patterns :: "regex list" where
  "conversation_patterns =
    [seqs [WordB, Group 1 (words [''ciao'', ''salve'', ''hey'', ''hi'']), WordB],
     seqs [Lit ''?'', Eol],
     seqs [WordB, Group 1 (words [''grazie'', ''prego'', ''per favore'']), WordB],
     seqs [Bol, Group 1 (alts [Lit ''come'', Lit ''cosa'', Lit ''quando'', Lit ''dove'',
                              Seq (Lit ''perch'') (NegLook Eps), Lit ''chi'']), WordB]]"

definition technical_indicators :: "regex list" where
  "technical_indicators =
    [seqs [WordB, Group 1 (words [''function'', ''class'', ''def'', ''var'', ''let'', ''const'']),
           WordB],
     Lit ''```'',
     seqs [WordB, Group 1 (words [''analizza'', ''ottimizza'', ''debug'']), WordB]]"

text \<open>\<^verbatim>\<open>_is_conversational\<close>: the conversational patterns are tried first, on short
  messages; the technical indicators only afterwards.\<close>

definition is_conversational :: "string \<Rightarrow> bool" where
  "is_conversational content =
    (let content_lower = lower content in
     if length (split_ws content) < 15 \<and> any_match conversation_patterns content_lower
     then True
     else if any_match technical_indicators content_lower then False
     else True)"

definition code_patterns :: "regex list" where
  "code_patterns =
    [seqs [Lit ''```'', Star W, Lit [nl], LazyStar AnyChar, Lit (nl # ''```'')],
     seqs [WordB, Group 1 (words [''function'', ''class'', ''def'', ''var'', ''let'', ''const'']),
           WordB, Plus S, Plus W],
     seqs [WordB, Group 1 (words [''import'', ''require'', ''from'']), WordB, Plus S,
           Plus (Class (Pos [Word, Space, Chr CHR '','', Chr CHR ''{'', Chr CHR ''}'']))],
     seqs [Star (Class (Pos [Word, Space])), Lit ''('', Star (Class (Neg [Chr CHR '')''])),
           Lit '')'', Star S, Lit ''{''],
     Lit ''=>'',
     seqs [WordB, Group 1 (words [''if'', ''for'', ''while'', ''switch'']), WordB, Star S, Lit ''(''],
     seqs [Lit ''<'',
           Star (Class (Pos [Word, Space, Chr CHR ''='', Chr (CHR 0x22), Chr (CHR 0x27)])),
           Lit ''>'', LazyStar Dot, Lit ''</'', Star (Class (Pos [Word, Space])), Lit ''>''],
     seqs [BolM, S2, Plus W]]"

definition contains_code :: "string \<Rightarrow> bool" where
  "contains_code content = any_match code_patterns content"

definition data_patterns :: "regex list" where
  "data_patterns =
    [seqs [Lit ''{'', Star AnyChar, Lit [CHR 0x22], LazyStar Dot, Lit [CHR 0x22], Star AnyChar,
           Lit ''}''],
     seqs [Lit ''['', Star AnyChar, Lit ''{'', LazyStar Dot, Lit ''}'', Star AnyChar, Lit '']''],
     seqs [Seq (Plus W) (Lit '',''), Seq (Plus W) (Lit '',''), Star (Seq (Plus W) (Lit '','')),
           Plus W, Alt (Lit [nl]) EolM],
     seqs [BolM, Plus W, Lit '':'', Star S, Lit [nl],
           Plus (seqs [S2, Lit ''-'', Plus S, Star Dot, Lit [nl]])],
     seqs [Lit ''|'', Star S, Plus (Class (Pos [Word, Space])), Star S, Lit ''|'', Star Dot,
           Lit ''|'']]"

definition contains_structured_data :: "string \<Rightarrow> bool" where
  "contains_structured_data content = any_match data_patterns content"

text \<open>\<^verbatim>\<open>_map_file_type_to_content_type\<close>.\<close>

definition file_type_mappings :: "(string \<times> string) list" where
  "file_type_mappings =
    [(''py'', ''code''), (''js'', ''code''), (''ts'', ''code''), (''java'', ''code''),
     (''cpp'', ''code''), (''json'', ''data''), (''csv'', ''data''), (''yaml'', ''data''),
     (''yml'', ''data''), (''xml'', ''data'')]"

definition map_file_type_to_content_type :: "string \<Rightarrow> string" where
  "map_file_type_to_content_type file_type =
     (case map_of file_type_mappings (lower file_type) of None \<Rightarrow> ''general'' | Some t \<Rightarrow> t)"

text \<open>
  \<^verbatim>\<open>Path(name).suffix\<close> on a POSIX path: the last component that is neither empty nor a
  single dot, from its last dot on, when that dot is neither its first nor its last
  character.
\<close>

definition path_name :: "string \<Rightarrow> string" where
  "path_name p =
     (case filter (\<lambda>c. c \<noteq> [] \<and> c \<noteq> ''.'') (split_on CHR ''/'' p) of
        [] \<Rightarrow> [] | c # cs \<Rightarrow> last (c # cs))"

definition path_suffix :: "string \<Rightarrow> string" where
  "path_suffix p =
     (let name = path_name p;
          after = takeWhile (\<lambda>c. c \<noteq> CHR ''.'') (rev name)
      in if after = [] \<or> length after + 1 \<ge> length name then []
         else CHR ''.'' # rev after)"

text \<open>A file dictionary, of which only the key \<^verbatim>\<open>name\<close> is read
  (\<^verbatim>\<open>file.get('name', '')\<close>).\<close>

record file_entry =
  file_name :: "string option"

text \<open>A non-empty context dictionary, with its two optional keys.\<close>

record context_dict =
  file_type :: "string option"
  available_files :: "file_entry list option"

fun determine_type_from_files :: "file_entry list \<Rightarrow> string" where
  "determine_type_from_files [] = ''general''"
| "determine_type_from_files (f # files) =
     (let ext = dropWhile (\<lambda>c. c = CHR ''.'')
                  (lower (path_suffix (case file_name f of None \<Rightarrow> [] | Some n \<Rightarrow> n)));
          content_type = map_file_type_to_content_type ext
      in if content_type \<noteq> ''general'' then content_type
         else determine_type_from_files files)"

text \<open>\<^verbatim>\<open>determine_content_type(content, context)\<close>; \<open>None\<close> is an absent or empty
  context.\<close>

definition determine_content_type :: "string \<Rightarrow> context_dict option \<Rightarrow> string" where
  "determine_content_type content ctx =
     (if is_conversational content then ''conversation''
      else if contains_code content then ''code''
      else if contains_structured_data content then ''data''
      else
        (case ctx of
           None \<Rightarrow> ''general''
         | Some c \<Rightarrow>
             (case file_type c of
                Some ft \<Rightarrow> map_file_type_to_content_type ft
              | None \<Rightarrow>
                  (case available_files c of
                     Some files \<Rightarrow> determine_type_from_files files
                   | None \<Rightarrow> ''general''))))"

text \<open>The input of the spec's third classification example.\<close>

definition json_example :: string where
  "json_example =
     ''{'' @ [CHR 0x22] @ ''a'' @ [CHR 0x22] @ '': 1, '' @ [CHR 0x22] @ ''b'' @ [CHR 0x22]
       @ '': [1,2,3]}''"

section \<open>Diff summarizer (services/code_analyzer.py, components/chat_interface.py)\<close>

text \<open>\<^verbatim>\<open>str(n)\<close> for a natural number.\<close>

definition digit_char :: "nat \<Rightarrow> char" where
  "digit_char d = char_of (48 + d)"

function str_of_nat :: "nat \<Rightarrow> string" where
  "str_of_nat n = (if n < 10 then [digit_char n] else str_of_nat (n div 10) @ [digit_char (n mod 10)])"
  by pat_completeness auto
termination
  by (relation "measure id") auto

text \<open>\<^verbatim>\<open>match.groups()\<close> is non-empty when the pattern has a capturing group.\<close>

primrec has_groups :: "regex \<Rightarrow> bool" where
  "has_groups (Class c) = False"
| "has_groups (Lit w) = False"
| "has_groups Eps = False"
| "has_groups (Seq a b) = (has_groups a \<or> has_groups b)"
| "has_groups (Alt a b) = (has_groups a \<or> has_groups b)"
| "has_groups (Star r) = has_groups r"
| "has_groups (LazyStar r) = has_groups r"
| "has_groups (Group k r) = True"
| "has_groups Bol = False"
| "has_groups BolM = False"
| "has_groups Eol = False"
| "has_groups EolM = False"
| "has_groups WordB = False"
| "has_groups (NegLook r) = has_groups r"

text \<open>\<^verbatim>\<open>match.group(k)\<close>: the text of the last span recorded for group \<open>k\<close>, or \<open>None\<close>
  when the group took no part in the match.\<close>

fun group_span :: "nat \<Rightarrow> (nat \<times> nat \<times> nat) list \<Rightarrow> (nat \<times> nat) option" where
  "group_span k [] = None"
| "group_span k ((j, a, b) # caps) = (if j = k then Some (a, b) else group_span k caps)"

definition match_group :: "nat \<Rightarrow> string \<Rightarrow> mstate \<Rightarrow> string option" where
  "match_group k s m =
     (case group_span k (snd m) of None \<Rightarrow> None | Some (a, b) \<Rightarrow> Some (take (b - a) (drop a s)))"

text \<open>How an f-string prints \<^verbatim>\<open>match.group(1)\<close>.\<close>

definition format_group :: "string option \<Rightarrow> string" where
  "format_group g = (case g of None \<Rightarrow> ''None'' | Some t \<Rightarrow> t)"

text \<open>The dictionary \<^verbatim>\<open>patterns\<close> of \<^verbatim>\<open>_summarize_change_block\<close>, in insertion order.\<close>

definition change_patterns :: "(regex \<times> string) list" where
  "change_patterns =
    [(seqs [Lit ''def'', Plus S, Group 1 (Plus W)], ''funzione''),
     (seqs [Lit ''class'', Plus S, Group 1 (Plus W)], ''classe''),
     (seqs [Lit ''import'', Plus S, Group 1 (Plus W)], ''import''),
     (Seq (Lit ''return'') (Plus S), ''return statement''),
     (Seq (Lit ''if'') (Plus S), ''condizione''),
     (Seq (Lit ''for'') (Plus S), ''loop''),
     (Seq (Lit ''while'') (Plus S), ''loop''),
     (Lit ''try:'', ''gestione errori'')]"

text \<open>\<^verbatim>\<open>for line in lines: match = re.search(pattern, line); if match: ...\<close>: the first
  line that matches, with its match.\<close>

fun first_line_match :: "regex \<Rightarrow> string list \<Rightarrow> (string \<times> mstate) option" where
  "first_line_match r [] = None"
| "first_line_match r (l # ls) =
     (case re_search r l of Some im \<Rightarrow> Some (l, snd im) | None \<Rightarrow> first_line_match r ls)"

definition describe_change :: "string \<Rightarrow> regex \<Rightarrow> string \<Rightarrow> string \<times> mstate \<Rightarrow> string" where
  "describe_change verb r desc lm =
     (if has_groups r
      then verb @ '' '' @ desc @ '' '' @ [CHR 0x27] @ format_group (match_group 1 (fst lm) (snd lm))
             @ [CHR 0x27]
      else verb @ '' '' @ desc)"

fun scan_patterns :: "(regex \<times> string) list \<Rightarrow> string list \<Rightarrow> string list \<Rightarrow> string option" where
  "scan_patterns [] additions deletions = None"
| "scan_patterns ((r, desc) # ps) additions deletions =
     (case first_line_match r additions of
        Some lm \<Rightarrow> Some (describe_change ''Aggiunto'' r desc lm)
      | None \<Rightarrow>
          (case first_line_match r deletions of
             Some lm \<Rightarrow> Some (describe_change ''Rimosso'' r desc lm)
           | None \<Rightarrow> scan_patterns ps additions deletions))"

definition summarize_change_block :: "string list \<Rightarrow> string option" where
  "summarize_change_block block =
     (if block = [] then None
      else
        (let additions = map (drop 2) (filter (\<lambda>l. startswith l ''+ '') block);
             deletions = map (drop 2) (filter (\<lambda>l. startswith l ''- '') block)
         in case scan_patterns change_patterns additions deletions of
              Some t \<Rightarrow> Some t
            | None \<Rightarrow>
                if length block = 1 then Some ''Modificata una linea''
                else Some (''Modificate '' @ str_of_nat (length block) @ '' linee'')))"

text \<open>The flush of the source: summarize the block and append the summary when it is
  truthy.\<close>

definition flush_block :: "string list \<Rightarrow> string list \<Rightarrow> string list" where
  "flush_block summary block =
     (case summarize_change_block block of
        None \<Rightarrow> summary
      | Some t \<Rightarrow> if t \<noteq> [] then summary @ [t] else summary)"

text \<open>
  The loop of \<^verbatim>\<open>_generate_diff_summary\<close> with its variables \<^verbatim>\<open>summary\<close> and
  \<^verbatim>\<open>current_block\<close>; the first branch is the \<^verbatim>\<open>continue\<close> on a \<^verbatim>\<open>'? '\<close> line, the empty list
  is the code after the loop.
\<close>

fun diff_loop :: "string list \<Rightarrow> string list \<Rightarrow> string list \<Rightarrow> string list" where
  "diff_loop [] summary current_block =
     (if current_block \<noteq> [] then flush_block summary current_block else summary)"
| "diff_loop (line # rest) summary current_block =
     (if startswith line ''? '' then diff_loop rest summary current_block
      else if startswith line ''+ '' \<or> startswith line ''- ''
      then diff_loop rest summary (current_block @ [line])
      else if current_block \<noteq> [] then diff_loop rest (flush_block summary current_block) []
      else diff_loop rest summary current_block)"

definition generate_diff_summary :: "string list \<Rightarrow> string list" where
  "generate_diff_summary diff = diff_loop diff [] []"

text \<open>
  For comparison, the summarizer as the specification words it: the block is flushed at a
  context line and at a \<^verbatim>\<open>'? '\<close> line alike.
\<close>

fun spec_diff_loop :: "string list \<Rightarrow> string list \<Rightarrow> string list \<Rightarrow> string list" where
  "spec_diff_loop [] summary current_block =
     (if current_block \<noteq> [] then flush_block summary current_block else summary)"
| "spec_diff_loop (line # rest) summary current_block =
     (if startswith line ''+ '' \<or> startswith line ''- ''
      then spec_diff_loop rest summary (current_block @ [line])
      else if current_block \<noteq> [] then spec_diff_loop rest (flush_block summary current_block) []
      else spec_diff_loop rest summary current_block)"

definition spec_generate_diff_summary :: "string list \<Rightarrow> string list" where
  "spec_generate_diff_summary diff = spec_diff_loop diff [] []"

text \<open>
  The change blocks of a diff, stated without the loop: drop the \<^verbatim>\<open>'? '\<close> lines, cut the
  rest at every context line, keep the pieces that are not empty.
\<close>

definition is_change_line :: "string \<Rightarrow> bool" where
  "is_change_line l = (startswith l ''+ '' \<or> startswith l ''- '')"

definition is_hint_line :: "string \<Rightarrow> bool" where
  "is_hint_line l = startswith l ''? ''"

fun cut_at :: "('a \<Rightarrow> bool) \<Rightarrow> 'a list \<Rightarrow> 'a list list" where
  "cut_at P [] = [[]]"
| "cut_at P (x # xs) =
     (if P x then [] # cut_at P xs
      else (case cut_at P xs of [] \<Rightarrow> [[x]] | b # bs \<Rightarrow> (x # b) # bs))"

definition change_blocks :: "string list \<Rightarrow> string list list" where
  "change_blocks diff =
     filter (\<lambda>b. b \<noteq> [])
       (cut_at (\<lambda>l. \<not> is_change_line l) (filter (\<lambda>l. \<not> is_hint_line l) diff))"

section \<open>Language guesser (components/chat_interface.py)\<close>

text \<open>The dictionary \<^verbatim>\<open>indicators\<close> of \<^verbatim>\<open>_guess_language\<close>, in insertion order.\<close>

definition indicators :: "(string \<times> (string \<times> nat) list) list" where
  "indicators =
    [(''python'',
      [(''def '', 3), (''class '', 3), (''import '', 2), (''from '', 2), (''@'', 1),
       (''if __name__'', 3), (''.py'', 2), (''print('', 1), (''return '', 1), (''#'', 1),
       (''self.'', 2), (''elif '', 2), (''None'', 1), (''True'', 1), (''False'', 1),
       (''try:'', 2), (''except:'', 2), (''with '', 2)]),
     (''javascript'',
      [(''function '', 3), (''const '', 2), (''let '', 2), (''var '', 2), (''=>'', 3),
       (''document.'', 3), (''window.'', 3), (''.js'', 2), (''console.log('', 2), (''==='', 2),
       (''!=='', 2), (''undefined'', 2)]),
     (''html'',
      [(''<html'', 3), (''<body'', 2), (''<div'', 2), (''<p>'', 1), (''<script'', 2),
       (''<head'', 2), (''<style'', 2), (''<link'', 1), (''<meta'', 1), (''</div>'', 2)]),
     (''css'',
      [(''{'', 1), (''margin:'', 2), (''padding:'', 2), (''color:'', 2), (''background:'', 2),
       (''font-'', 2), (''border:'', 2), (''@media'', 3), (''#'', 1), (''.class'', 1),
       (''px;'', 2), (''em;'', 2), (''rem;'', 2)]),
     (''sql'',
      [(''select '', 3), (''from '', 2), (''where '', 2), (''insert into'', 3), (''update '', 2),
       (''delete from'', 3), (''create table'', 3), (''join '', 2), (''group by'', 2),
       (''order by'', 2)])]"

text \<open>The same table without the python entries \<^verbatim>\<open>None\<close>, \<^verbatim>\<open>True\<close> and \<^verbatim>\<open>False\<close>.\<close>

definition indicators_reduced :: "(string \<times> (string \<times> nat) list) list" where
  "indicators_reduced =
    [(''python'',
      [(''def '', 3), (''class '', 3), (''import '', 2), (''from '', 2), (''@'', 1),
       (''if __name__'', 3), (''.py'', 2), (''print('', 1), (''return '', 1), (''#'', 1),
       (''self.'', 2), (''elif '', 2),
       (''try:'', 2), (''except:'', 2), (''with '', 2)]),
     (''javascript'',
      [(''function '', 3), (''const '', 2), (''let '', 2), (''var '', 2), (''=>'', 3),
       (''document.'', 3), (''window.'', 3), (''.js'', 2), (''console.log('', 2), (''==='', 2),
       (''!=='', 2), (''undefined'', 2)]),
     (''html'',
      [(''<html'', 3), (''<body'', 2), (''<div'', 2), (''<p>'', 1), (''<script'', 2),
       (''<head'', 2), (''<style'', 2), (''<link'', 1), (''<meta'', 1), (''</div>'', 2)]),
     (''css'',
      [(''{'', 1), (''margin:'', 2), (''padding:'', 2), (''color:'', 2), (''background:'', 2),
       (''font-'', 2), (''border:'', 2), (''@media'', 3), (''#'', 1), (''.class'', 1),
       (''px;'', 2), (''em;'', 2), (''rem;'', 2)]),
     (''sql'',
      [(''select '', 3), (''from '', 2), (''where '', 2), (''insert into'', 3), (''update '', 2),
       (''delete from'', 3), (''create table'', 3), (''join '', 2), (''group by'', 2),
       (''order by'', 2)])]"

text \<open>The inner loop: \<^verbatim>\<open>scores[lang] += code.count(indicator) * weight\<close>.\<close>

fun lang_score :: "string \<Rightarrow> (string \<times> nat) list \<Rightarrow> nat \<Rightarrow> nat" where
  "lang_score code [] score = score"
| "lang_score code ((indicator, weight) # rest) score =
     lang_score code rest (score + count_sub code indicator * weight)"

definition compute_scores :: "(string \<times> (string \<times> nat) list) list \<Rightarrow> string \<Rightarrow> (string \<times> nat) list" where
  "compute_scores tbl code = map (\<lambda>(lang, lst). (lang, lang_score code lst 0)) tbl"

text \<open>A dictionary read at a key that the tables above always hold.\<close>

definition entry :: "(string \<times> 'a) list \<Rightarrow> string \<Rightarrow> 'a \<Rightarrow> 'a" where
  "entry d k dflt = (case map_of d k of None \<Rightarrow> dflt | Some v \<Rightarrow> v)"

text \<open>\<^verbatim>\<open>sum(1 for ind, _ in indicators['python'] if ind in code)\<close>.\<close>

definition present_indicators :: "string \<Rightarrow> (string \<times> nat) list \<Rightarrow> nat" where
  "present_indicators code lst = length (filter (\<lambda>(ind, w). contains code ind) lst)"

text \<open>The special case that raises the python score of a text with a brace.\<close>

definition boost_python :: "(string \<times> (string \<times> nat) list) list \<Rightarrow> string \<Rightarrow> (string \<times> nat) list \<Rightarrow> (string \<times> nat) list" where
  "boost_python tbl code scores =
     (if entry scores ''python'' 0 > 0 \<and> contains code ''{''
         \<and> present_indicators code (entry tbl ''python'' []) \<ge> 3
      then map (\<lambda>(lang, score). if lang = ''python'' then (lang, score + 2) else (lang, score)) scores
      else scores)"

text \<open>\<^verbatim>\<open>max(scores.values())\<close>.\<close>

definition max_score :: "(string \<times> nat) list \<Rightarrow> nat" where
  "max_score scores = fold max (map snd scores) 0"

text \<open>\<^verbatim>\<open>max(scores.items(), key=lambda x: x[1])[0]\<close>: the first key with the largest
  score.\<close>

fun first_best :: "(string \<times> nat) list \<Rightarrow> string \<times> nat \<Rightarrow> string" where
  "first_best [] best = fst best"
| "first_best (item # rest) best = first_best rest (if snd item > snd best then item else best)"

definition arg_max_score :: "(string \<times> nat) list \<Rightarrow> string" where
  "arg_max_score scores = (case scores of [] \<Rightarrow> [] | item # rest \<Rightarrow> first_best rest item)"

text \<open>\<^verbatim>\<open>_guess_language\<close> after \<^verbatim>\<open>code = code.strip().lower()\<close>, for a given table.\<close>

definition guess_language_core :: "(string \<times> (string \<times> nat) list) list \<Rightarrow> string \<Rightarrow> string" where
  "guess_language_core tbl code =
     (let scores = boost_python tbl code (compute_scores tbl code);
          top = max_score scores
      in if top = 0 \<and> (contains code ''    '' \<or> contains code [CHR 0x09])
              \<and> (contains code '':'' \<or> contains code ''def'' \<or> contains code ''class'')
         then ''python''
         else if top > 0
         then
           (let candidates = map fst (filter (\<lambda>(lang, score). score = top) scores)
            in if length candidates > 1 \<and> ''python'' \<in> set candidates
                  \<and> list_ex (\<lambda>(ind, w). contains code ind) (entry tbl ''python'' [])
               then ''python''
               else arg_max_score scores)
         else ''text'')"

definition guess_language :: "string \<Rightarrow> string" where
  "guess_language code = guess_language_core indicators (lower (strip code))"

definition guess_language_reduced :: "string \<Rightarrow> string" where
  "guess_language_reduced code = guess_language_core indicators_reduced (lower (strip code))"

text \<open>A table restricted to the indicators that satisfy \<open>keep\<close>.\<close>

definition reduce_table :: "(string \<Rightarrow> bool) \<Rightarrow> (string \<times> (string \<times> nat) list) list \<Rightarrow> (string \<times> (string \<times> nat) list) list" where
  "reduce_table keep tbl = map (\<lambda>(lang, lst). (lang, filter (\<lambda>(ind, w). keep ind) lst)) tbl"

section \<open>Code analyzer (services/code_analyzer.py)\<close>

subsection \<open>Syntax trees and the parser\<close>

text \<open>
  The part of a Python syntax tree that the analyzer looks at: the node classes its
  visitors name, each with its child nodes in the order of \<^verbatim>\<open>ast.iter_child_nodes\<close>; a
  function definition carries its name and \<^verbatim>\<open>len(node.args.args)\<close>, a \<^verbatim>\<open>try\<close> statement the
  number of its handlers. Every other node class is \<open>Other\<close>.
\<close>

datatype node =
    FunctionDef string nat "node list"
  | ClassDef string "node list"
  | IfNode "node list"
  | For "node list"
  | While "node list"
  | Try nat "node list"
  | Other "node list"

fun children :: "node \<Rightarrow> node list" where
  "children (FunctionDef name n ch) = ch"
| "children (ClassDef name ch) = ch"
| "children (IfNode ch) = ch"
| "children (For ch) = ch"
| "children (While ch) = ch"
| "children (Try h ch) = ch"
| "children (Other ch) = ch"

text \<open>What \<^verbatim>\<open>ast.parse\<close> does with a text: a tree, a \<^verbatim>\<open>SyntaxError\<close>, or another exception
  (a \<^verbatim>\<open>RecursionError\<close> when the text is nested too deeply for it); the string is \<^verbatim>\<open>str(e)\<close>.\<close>

datatype parse_result = Parsed node | SyntaxError string | OtherError string

subsection \<open>Results\<close>

text \<open>
  The dictionary \<^verbatim>\<open>complexity\<close> of a result. The last two keys are absent from the
  dictionary of a text that does not parse, the last three from the dictionary of the
  fallback result.
\<close>

record complexity =
  cognitive_load :: nat
  nesting_depth :: nat
  branches :: "nat option"
  max_method_complexity :: "nat option"
  total_complexity :: "nat option"

record function_complexity =
  fc_cognitive_load :: nat
  fc_nesting_depth :: nat
  fc_branches :: nat

record function_info =
  fn_name :: string
  fn_args :: nat
  fn_kwargs :: nat
  fn_defaults :: nat
  fn_has_varargs :: bool
  fn_has_kwargs :: bool
  fn_docstring :: "string option"
  fn_decorators :: "string list"
  fn_returns :: "string option"
  fn_complexity :: function_complexity
  fn_calls :: "string list"
  fn_attributes :: "string list"
  fn_local_vars :: "string list"

record class_info =
  cl_name :: string
  cl_bases :: "string list"
  cl_docstring :: "string option"
  cl_decorators :: "string list"
  cl_methods :: "string list"
  cl_attributes :: "string list"

text \<open>The dictionary returned by \<^verbatim>\<open>_analyze_ast\<close>.\<close>

record ast_analysis =
  aa_functions :: "function_info list"
  aa_classes :: "class_info list"
  aa_imports :: "string list"
  aa_dependencies :: "string list"
  aa_issues :: "string list"
  aa_suggestions :: "string list"

text \<open>The dictionary \<^verbatim>\<open>changes\<close> of \<^verbatim>\<open>_analyze_changes\<close>.\<close>

record version_change =
  lines_added :: nat
  lines_removed :: nat
  lines_modified :: nat
  complexity_delta :: int
  significant_changes :: "string list"
  breaking_changes :: "string list"
  diff_summary :: "string list"

text \<open>The dataclass \<^verbatim>\<open>AnalysisResult\<close>; \<open>None\<close> is the empty \<^verbatim>\<open>stats\<close> dictionary of the
  fallback result.\<close>

record analysis_result =
  ar_stats :: "code_stats option"
  ar_complexity :: complexity
  ar_issues :: "string list"
  ar_suggestions :: "string list"
  ar_functions :: "function_info list"
  ar_classes :: "class_info list"
  ar_imports :: "string list"
  ar_dependencies :: "string list"
  ar_version_changes :: "version_change option"

text \<open>The argument \<^verbatim>\<open>file_info\<close>, read only at its key \<^verbatim>\<open>name\<close>.\<close>

record file_info =
  fi_name :: "string option"

text \<open>An entry of \<^verbatim>\<open>self.previous_analyses\<close>.\<close>

record snapshot =
  snap_code :: string
  snap_analysis :: analysis_result

type_synonym analyzer = "string \<rightharpoonup> snapshot"

subsection \<open>What lies outside the modelled code\<close>

text \<open>
  \<open>stack\<close> is the number of frames that the interpreter's recursion limit leaves to a call
  made from the body of \<^verbatim>\<open>analyze_code\<close>, and \<open>recursion_message\<close> the text of the
  \<^verbatim>\<open>RecursionError\<close> raised beyond it. The library functions \<^verbatim>\<open>ast.parse\<close> and
  \<^verbatim>\<open>difflib.Differ().compare\<close> are parameters. The parser is called from three functions,
  at different depths of the stack, and what room it has may decide whether it raises: it
  takes the number of frames left where it is called. A comparison that raises (its
  recursion is bounded by the interpreter too) is \<open>Inl\<close> of the message. The other
  parameters are \<^verbatim>\<open>_analyze_ast\<close> (\<open>Inl\<close> of
  the message when it raises), \<^verbatim>\<open>_analyze_style\<close>, \<^verbatim>\<open>_analyze_patterns\<close> and
  \<^verbatim>\<open>_analyze_security\<close>: \<^verbatim>\<open>analyze_code\<close> only appends what they return to its lists, and the
  last three, which search a string with fixed patterns, raise nothing.
\<close>

record env =
  parse :: "nat \<Rightarrow> string \<Rightarrow> parse_result"
  compare :: "string list \<Rightarrow> string list \<Rightarrow> string + string list"
  stack :: nat
  recursion_message :: string
  analyze_ast :: "node \<Rightarrow> string set option \<Rightarrow> string + ast_analysis"
  analyze_style :: "string \<Rightarrow> string list"
  analyze_patterns :: "string \<Rightarrow> string list \<times> string list"
  analyze_security :: "string \<Rightarrow> file_info option \<Rightarrow> string list"

subsection \<open>Complexity\<close>

text \<open>The fields of \<^verbatim>\<open>ComplexityVisitor\<close>.\<close>

record visitor =
  current_depth :: nat
  max_depth :: nat
  v_branches :: nat
  v_cognitive_load :: nat

text \<open>Entering a nesting statement: the counters go up by \<open>b\<close> and \<open>c\<close>, the depth by one.\<close>

definition enter :: "nat \<Rightarrow> nat \<Rightarrow> visitor \<Rightarrow> visitor" where
  "enter b c v =
     v\<lparr>v_branches := v_branches v + b,
       v_cognitive_load := v_cognitive_load v + c,
       current_depth := current_depth v + 1,
       max_depth := max (max_depth v) (current_depth v + 1)\<rparr>"

definition leave :: "visitor \<Rightarrow> visitor" where
  "leave v = v\<lparr>current_depth := current_depth v - 1\<rparr>"

text \<open>
  The frames that visiting a node puts on the stack before its children are visited:
  \<^verbatim>\<open>visit\<close>, the method \<^verbatim>\<open>visit_<Class>\<close> where the visitor has one, and \<^verbatim>\<open>generic_visit\<close>.
  Calls that return before the children are visited are not counted.
\<close>

fun frames :: "node \<Rightarrow> nat" where
  "frames (Other ch) = 2"
| "frames n = 3"

text \<open>The effect of the visitor's method on its fields, before and after the children
  are visited.\<close>

fun before_children :: "node \<Rightarrow> visitor \<Rightarrow> visitor" where
  "before_children (FunctionDef name n ch) v = v\<lparr>v_cognitive_load := v_cognitive_load v + 1\<rparr>"
| "before_children (ClassDef name ch) v = v\<lparr>v_cognitive_load := v_cognitive_load v + 1\<rparr>"
| "before_children (IfNode ch) v = enter 1 1 v"
| "before_children (For ch) v = enter 1 2 v"
| "before_children (While ch) v = enter 1 2 v"
| "before_children (Try h ch) v = enter (h + 1) 1 v"
| "before_children (Other ch) v = v"

fun after_children :: "node \<Rightarrow> visitor \<Rightarrow> visitor" where
  "after_children (FunctionDef name n ch) v = v"
| "after_children (ClassDef name ch) v = v"
| "after_children (Other ch) v = v"
| "after_children n v = leave v"

text \<open>
  \<^verbatim>\<open>visitor.visit(node)\<close> with \<open>d\<close> frames left, and \<^verbatim>\<open>generic_visit\<close> over the children.
  \<open>None\<close> is the \<^verbatim>\<open>RecursionError\<close> of a tree nested deeper than the stack has room for.
\<close>

function visit :: "nat \<Rightarrow> node \<Rightarrow> visitor \<Rightarrow> visitor option"
  and visit_all :: "nat \<Rightarrow> node list \<Rightarrow> visitor \<Rightarrow> visitor option" where
  "visit d n v =
     (if d < frames n then None
      else map_option (after_children n)
             (visit_all (d - frames n) (children n) (before_children n v)))"
| "visit_all d [] v = Some v"
| "visit_all d (c # cs) v =
     (case visit d c v of None \<Rightarrow> None | Some v' \<Rightarrow> visit_all d cs v')"
  by pat_completeness auto
termination
proof (relation "measure (\<lambda>x. case x of Inl (d, n, v) \<Rightarrow> 2 * size n
                                        | Inr (d, ns, v) \<Rightarrow> 2 * size_list size ns + 1)")
  show "wf (measure (\<lambda>x. case x of Inl (d, n, v) \<Rightarrow> 2 * size n
                                   | Inr (d, ns, v) \<Rightarrow> 2 * size_list size ns + 1))"
    by simp
next
  fix d :: nat and n :: node and v :: visitor
  assume "\<not> d < frames n"
  have "size_list size (children n) < size n" by (cases n) simp_all
  then show "(Inr (d - frames n, children n, before_children n v), Inl (d, n, v))
        \<in> measure (\<lambda>x. case x of Inl (d, n, v) \<Rightarrow> 2 * size n
                                | Inr (d, ns, v) \<Rightarrow> 2 * size_list size ns + 1)"
    by simp
next
  fix d :: nat and c :: node and cs :: "node list" and v :: visitor
  show "(Inl (d, c, v), Inr (d, c # cs, v))
        \<in> measure (\<lambda>x. case x of Inl (d, n, v) \<Rightarrow> 2 * size n
                                | Inr (d, ns, v) \<Rightarrow> 2 * size_list size ns + 1)"
    by simp
next
  fix d :: nat and c :: node and cs :: "node list" and v v' :: visitor
  show "(Inr (d, cs, v'), Inr (d, c # cs, v))
        \<in> measure (\<lambda>x. case x of Inl (d, n, v) \<Rightarrow> 2 * size n
                                | Inr (d, ns, v) \<Rightarrow> 2 * size_list size ns + 1)"
    by simp
qed

declare visit.simps [simp del]

text \<open>
  \<^verbatim>\<open>_analyze_complexity(code)\<close> with \<open>d\<close> frames left for the calls it makes. Only
  \<^verbatim>\<open>ast.parse\<close> is inside the \<^verbatim>\<open>try\<close>, whose bare \<^verbatim>\<open>except\<close> catches whatever the parser raises;
  an exception of \<^verbatim>\<open>visitor.visit(tree)\<close> leaves the function (\<open>Inl\<close> of its message).
\<close>

definition analyze_complexity :: "env \<Rightarrow> nat \<Rightarrow> string \<Rightarrow> string + complexity" where
  "analyze_complexity e d code =
     (case parse e d code of
        Parsed tree \<Rightarrow>
          (case visit d tree \<lparr>current_depth = 0, max_depth = 0, v_branches = 0,
                                v_cognitive_load = 0\<rparr> of
             None \<Rightarrow> Inl (recursion_message e)
           | Some v \<Rightarrow>
               Inr \<lparr>cognitive_load = v_cognitive_load v, nesting_depth = max_depth v,
                    branches = Some (v_branches v), max_method_complexity = Some 0,
                    total_complexity =
                      Some (v_cognitive_load v + max_depth v * 2 + v_branches v)\<rparr>)
      | _ \<Rightarrow> Inr \<lparr>cognitive_load = 0, nesting_depth = 0, branches = Some 0,
                  max_method_complexity = None, total_complexity = None\<rparr>)"

subsection \<open>Version changes\<close>

text \<open>\<^verbatim>\<open>str.splitlines()\<close> on the modelled range of characters.\<close>

definition is_linebreak :: "char \<Rightarrow> bool" where
  "is_linebreak c = (of_char c \<in> set [10, 11, 12, 13, 28, 29, 30, 133 :: nat])"

fun splitlines_from :: "string \<Rightarrow> string \<Rightarrow> string list" where
  "splitlines_from cur [] = (if cur = [] then [] else [rev cur])"
| "splitlines_from cur [c] =
     (if is_linebreak c then [rev cur] else [rev (c # cur)])"
| "splitlines_from cur (c # d # r) =
     (if c = CHR 0x0D \<and> d = CHR 0x0A then rev cur # splitlines_from [] r
      else if is_linebreak c then rev cur # splitlines_from [] (d # r)
      else splitlines_from (c # cur) (d # r))"

definition splitlines :: "string \<Rightarrow> string list" where
  "splitlines s = splitlines_from [] s"

text \<open>\<^verbatim>\<open>ast.walk\<close>: breadth first, from a queue.\<close>

function walk_queue :: "node list \<Rightarrow> node list" where
  "walk_queue [] = []"
| "walk_queue (n # todo) = n # walk_queue (todo @ children n)"
  by pat_completeness auto
termination
proof (relation "measure (\<lambda>q. sum_list (map size q))")
  show "wf (measure (\<lambda>q. sum_list (map size q)))" by simp
next
  fix n :: node and todo :: "node list"
  have "sum_list (map size (children n)) < size n"
    by (cases n) (simp_all add: size_list_conv_sum_list)
  then show "(todo @ children n, n # todo) \<in> measure (\<lambda>q. sum_list (map size q))"
    by simp
qed

definition walk :: "node \<Rightarrow> node list" where
  "walk tree = walk_queue [tree]"

text \<open>A dictionary in insertion order: a new key goes to the end, a known key keeps its
  place and takes the new value.\<close>

fun dict_set :: "('k \<times> 'v) list \<Rightarrow> 'k \<Rightarrow> 'v \<Rightarrow> ('k \<times> 'v) list" where
  "dict_set [] k v = [(k, v)]"
| "dict_set ((k', v') # d) k v = (if k' = k then (k, v) # d else (k', v') # dict_set d k v)"

text \<open>\<^verbatim>\<open>{node.name: node for node in ast.walk(tree) if isinstance(node, ast.FunctionDef)}\<close>,
  keeping of each node the argument count, which is all that is read later.\<close>

fun collect_funcs :: "node list \<Rightarrow> (string \<times> nat) list \<Rightarrow> (string \<times> nat) list" where
  "collect_funcs [] d = d"
| "collect_funcs (FunctionDef name n ch # ns) d = collect_funcs ns (dict_set d name n)"
| "collect_funcs (other # ns) d = collect_funcs ns d"

definition function_table :: "node \<Rightarrow> (string \<times> nat) list" where
  "function_table tree = collect_funcs (walk tree) []"

text \<open>\<^verbatim>\<open>str(i)\<close> for an integer.\<close>

definition str_of_int :: "int \<Rightarrow> string" where
  "str_of_int i = (if i < 0 then ''-'' @ str_of_nat (nat (- i)) else str_of_nat (nat i))"

text \<open>The loop over \<^verbatim>\<open>previous_funcs.items()\<close>.\<close>

fun removed_or_changed :: "(string \<times> nat) list \<Rightarrow> (string \<times> nat) list \<Rightarrow> string list \<Rightarrow> string list" where
  "removed_or_changed [] current_funcs breaking = breaking"
| "removed_or_changed ((name, prev_args) # rest) current_funcs breaking =
     removed_or_changed rest current_funcs
       (case map_of current_funcs name of
          None \<Rightarrow> breaking @ [''Funzione rimossa: '' @ name]
        | Some curr_args \<Rightarrow>
            if prev_args \<noteq> curr_args
            then breaking @ [''Signature cambiata per '' @ name @ '': da '' @ str_of_nat prev_args
                             @ '' a '' @ str_of_nat curr_args @ '' argomenti'']
            else breaking)"

text \<open>The loop over \<^verbatim>\<open>current_funcs\<close>.\<close>

fun new_functions :: "(string \<times> nat) list \<Rightarrow> (string \<times> nat) list \<Rightarrow> string list \<Rightarrow> string list" where
  "new_functions [] previous_funcs significant = significant"
| "new_functions ((name, n) # rest) previous_funcs significant =
     new_functions rest previous_funcs
       (if map_of previous_funcs name = None
        then significant @ [''Nuova funzione: '' @ name] else significant)"

text \<open>The first loop of \<^verbatim>\<open>_analyze_changes\<close>, over the lines of the diff.\<close>

fun count_lines :: "string list \<Rightarrow> version_change \<Rightarrow> version_change" where
  "count_lines [] ch = ch"
| "count_lines (line # rest) ch =
     count_lines rest
       (if startswith line ''+ '' then ch\<lparr>lines_added := lines_added ch + 1\<rparr>
        else if startswith line ''- '' then ch\<lparr>lines_removed := lines_removed ch + 1\<rparr>
        else if startswith line ''? '' then ch\<lparr>lines_modified := lines_modified ch + 1\<rparr>
        else ch)"

text \<open>The message of an exception caught while the two texts are parsed.\<close>

definition parse_error :: "parse_result \<Rightarrow> string" where
  "parse_error r = (case r of Parsed t \<Rightarrow> [] | SyntaxError m \<Rightarrow> m | OtherError m \<Rightarrow> m)"

text \<open>The second step of \<^verbatim>\<open>_analyze_changes\<close>, inside its own \<^verbatim>\<open>try\<close>: the complexity of
  the current text, computed one call deeper than in \<^verbatim>\<open>analyze_code\<close>, against the cached
  one.\<close>

definition complexity_step :: "env \<Rightarrow> string \<Rightarrow> snapshot \<Rightarrow> version_change \<Rightarrow> version_change" where
  "complexity_step e current_code previous ch =
     (case analyze_complexity e (stack e - 2) current_code of
        Inl m \<Rightarrow>
          ch\<lparr>significant_changes := significant_changes ch
             @ [''Errore nell'' @ [CHR 0x27] @ ''analisi della complessit'' @ [CHR 0xE0] @ '': '' @ m]\<rparr>
      | Inr current_complexity \<Rightarrow>
          (let delta = int (cognitive_load current_complexity)
                       - int (cognitive_load (ar_complexity (snap_analysis previous)));
               ch1 = ch\<lparr>complexity_delta := delta\<rparr>
           in if \<bar>delta\<bar> > 5
              then ch1\<lparr>significant_changes := significant_changes ch1
                     @ [''Significativo cambio di complessit'' @ [CHR 0xE0] @ '': ''
                        @ str_of_int delta]\<rparr>
              else ch1))"

text \<open>The third step of \<^verbatim>\<open>_analyze_changes\<close>, inside its own \<^verbatim>\<open>try\<close>: the comparison of
  the function tables of the two texts, both parsed in the frame of \<^verbatim>\<open>_analyze_changes\<close>.\<close>

definition functions_step :: "env \<Rightarrow> string \<Rightarrow> snapshot \<Rightarrow> version_change \<Rightarrow> version_change" where
  "functions_step e current_code previous ch =
     (case parse e (stack e - 1) current_code of
        Parsed current_tree \<Rightarrow>
          (case parse e (stack e - 1) (snap_code previous) of
             Parsed previous_tree \<Rightarrow>
               (let current_funcs = function_table current_tree;
                    previous_funcs = function_table previous_tree;
                    ch1 = ch\<lparr>breaking_changes :=
                            removed_or_changed previous_funcs current_funcs (breaking_changes ch)\<rparr>
                in ch1\<lparr>significant_changes :=
                         new_functions current_funcs previous_funcs (significant_changes ch1)\<rparr>)
           | err \<Rightarrow>
               ch\<lparr>significant_changes := significant_changes ch
                  @ [''Errore nell'' @ [CHR 0x27] @ ''analisi delle funzioni: '' @ parse_error err]\<rparr>)
      | err \<Rightarrow>
          ch\<lparr>significant_changes := significant_changes ch
             @ [''Errore nell'' @ [CHR 0x27] @ ''analisi delle funzioni: '' @ parse_error err]\<rparr>)"

text \<open>\<^verbatim>\<open>_analyze_changes\<close>. The line comparison stands outside every \<^verbatim>\<open>try\<close> of the
  function: when it raises, so does the function.\<close>

definition analyze_changes :: "env \<Rightarrow> string \<Rightarrow> snapshot \<Rightarrow> string + version_change" where
  "analyze_changes e current_code previous =
     (let current_lines = splitlines current_code;
          previous_lines = splitlines (snap_code previous)
      in case compare e previous_lines current_lines of
           Inl m \<Rightarrow> Inl m
         | Inr diff \<Rightarrow>
             (let ch0 = count_lines diff
                          \<lparr>lines_added = 0, lines_removed = 0, lines_modified = 0,
                           complexity_delta = 0, significant_changes = [], breaking_changes = [],
                           diff_summary = []\<rparr>;
                  ch1 = complexity_step e current_code previous ch0;
                  ch2 = functions_step e current_code previous ch1
              in Inr (ch2\<lparr>diff_summary := generate_diff_summary diff\<rparr>)))"

subsection \<open>The entry point\<close>

text \<open>The \<^verbatim>\<open>try\<close> block around \<^verbatim>\<open>ast.parse\<close> and \<^verbatim>\<open>_analyze_ast\<close>.\<close>

definition syntax_error_message :: string where
  "syntax_error_message = ''Il codice contiene errori di sintassi''"

definition ast_error_message :: "string \<Rightarrow> string" where
  "ast_error_message m = ''Errore nell'' @ [CHR 0x27] @ ''analisi AST: '' @ m"

definition ast_step :: "env \<Rightarrow> string \<Rightarrow> string set option \<Rightarrow> analysis_result \<Rightarrow> analysis_result" where
  "ast_step e code active_rules result =
     (case parse e (stack e) code of
        Parsed tree \<Rightarrow>
          (case analyze_ast e tree active_rules of
             Inr a \<Rightarrow>
               result\<lparr>ar_functions := aa_functions a, ar_classes := aa_classes a,
                      ar_imports := aa_imports a, ar_dependencies := aa_dependencies a,
                      ar_issues := ar_issues result @ aa_issues a,
                      ar_suggestions := ar_suggestions result @ aa_suggestions a\<rparr>
           | Inl m \<Rightarrow> result\<lparr>ar_issues := ar_issues result @ [ast_error_message m]\<rparr>)
      | SyntaxError m \<Rightarrow> result\<lparr>ar_issues := ar_issues result @ [syntax_error_message]\<rparr>
      | OtherError m \<Rightarrow> result\<lparr>ar_issues := ar_issues result @ [ast_error_message m]\<rparr>)"

text \<open>The name under which the analysis is cached: \<^verbatim>\<open>file_info and 'name' in file_info\<close>.\<close>

definition cache_key :: "file_info option \<Rightarrow> string option" where
  "cache_key file_info = (case file_info of None \<Rightarrow> None | Some fi \<Rightarrow> fi_name fi)"

text \<open>
  The body of the outer \<^verbatim>\<open>try\<close> of \<^verbatim>\<open>analyze_code(code, file_info, active_rules)\<close>, with the
  cache \<^verbatim>\<open>self.previous_analyses\<close> passed in and returned. \<open>Inl\<close> is an exception that leaves
  the body: one of the visitor in \<^verbatim>\<open>_analyze_complexity\<close>, or one of the line comparison in
  \<^verbatim>\<open>_analyze_changes\<close>.
\<close>

definition analyze_body :: "env \<Rightarrow> analyzer \<Rightarrow> string \<Rightarrow> file_info option \<Rightarrow> string set option \<Rightarrow> string + (analysis_result \<times> analyzer)" where
  "analyze_body e previous_analyses code file_info active_rules =
     (case analyze_complexity e (stack e - 1) code of
        Inl m \<Rightarrow> Inl m
      | Inr c \<Rightarrow>
          (let r0 = \<lparr>ar_stats = Some (get_code_stats code), ar_complexity = c,
                     ar_issues = [], ar_suggestions = [], ar_functions = [], ar_classes = [],
                     ar_imports = [], ar_dependencies = [], ar_version_changes = None\<rparr>;
               r1 = ast_step e code active_rules r0;
               r2 = r1\<lparr>ar_issues := ar_issues r1 @ analyze_style e code\<rparr>;
               r3 = r2\<lparr>ar_issues := ar_issues r2 @ fst (analyze_patterns e code),
                       ar_suggestions := ar_suggestions r2 @ snd (analyze_patterns e code)\<rparr>;
               r4 = r3\<lparr>ar_issues := ar_issues r3 @ analyze_security e code file_info\<rparr>
           in case cache_key file_info of
                None \<Rightarrow> Inr (r4, previous_analyses)
              | Some name \<Rightarrow>
                  (case previous_analyses name of
                     None \<Rightarrow>
                       Inr (r4, previous_analyses(name \<mapsto> \<lparr>snap_code = code, snap_analysis = r4\<rparr>))
                   | Some prev \<Rightarrow>
                       (case analyze_changes e code prev of
                          Inl m \<Rightarrow> Inl m
                        | Inr version_changes \<Rightarrow>
                            (let r5 = r4\<lparr>ar_version_changes := Some version_changes\<rparr>
                             in Inr (r5, previous_analyses(name \<mapsto>
                                           \<lparr>snap_code = code, snap_analysis = r5\<rparr>)))))))"

text \<open>The result built by the outer handler.\<close>

definition fallback_message :: string where
  "fallback_message = ''Errore durante l'' @ [CHR 0x27] @ ''analisi''"

definition fallback_result :: analysis_result where
  "fallback_result =
     \<lparr>ar_stats = None,
      ar_complexity = \<lparr>cognitive_load = 0, nesting_depth = 0, branches = None,
                       max_method_complexity = None, total_complexity = None\<rparr>,
      ar_issues = [fallback_message], ar_suggestions = [], ar_functions = [], ar_classes = [],
      ar_imports = [], ar_dependencies = [], ar_version_changes = None\<rparr>"

text \<open>
  \<^verbatim>\<open>analyze_code\<close>: the body, and for an exception that leaves it the outer handler, which
  returns the fallback result and leaves the cache as it was (its message to the user
  interface is not part of the model).
\<close>

definition analyze_code :: "env \<Rightarrow> analyzer \<Rightarrow> string \<Rightarrow> file_info option \<Rightarrow> string set option \<Rightarrow> analysis_result \<times> analyzer" where
  "analyze_code e previous_analyses code file_info active_rules =
     (case analyze_body e previous_analyses code file_info active_rules of
        Inr x \<Rightarrow> x
      | Inl m \<Rightarrow> (fallback_result, previous_analyses))"

text \<open>Whether a call ends in the outer handler.\<close>

definition enters_handler :: "env \<Rightarrow> analyzer \<Rightarrow> string \<Rightarrow> file_info option \<Rightarrow> string set option \<Rightarrow> bool" where
  "enters_handler e previous_analyses code file_info active_rules =
     isl (analyze_body e previous_analyses code file_info active_rules)"

text \<open>What is taken from \<^verbatim>\<open>difflib\<close>: comparing a sequence of lines with itself raises
  nothing and gives every line once, behind the two-blank prefix of an unchanged line.\<close>

definition differ_reflexive :: "env \<Rightarrow> bool" where
  "differ_reflexive e = (\<forall>ls. compare e ls ls = Inr (map (\<lambda>l. ''  '' @ l) ls))"

text \<open>
  A small environment to run the analyzer in: the parser knows one text, whatever room it
  has, the comparison marks equal sequences as unchanged and replaces any other sequence
  wholesale, the stack has the room of Python's default recursion limit, and the remaining
  analyses find nothing.
\<close>

definition sample_env :: env where
  "sample_env =
     \<lparr>parse = (\<lambda>d code. if code = ''def f(x): pass''
                         then Parsed (Other [FunctionDef ''f'' 1 [Other [Other []], Other []]])
                         else SyntaxError ''invalid syntax''),
      compare = (\<lambda>a b. if a = b then Inr (map (\<lambda>l. ''  '' @ l) a)
                        else Inr (map (\<lambda>l. ''- '' @ l) a @ map (\<lambda>l. ''+ '' @ l) b)),
      stack = 1000,
      recursion_message = ''maximum recursion depth exceeded'',
      analyze_ast = (\<lambda>tree rules. Inr \<lparr>aa_functions = [], aa_classes = [], aa_imports = [],
                                        aa_dependencies = [], aa_issues = [], aa_suggestions = []\<rparr>),
      analyze_style = (\<lambda>code. []),
      analyze_patterns = (\<lambda>code. ([], [])),
      analyze_security = (\<lambda>code file_info. [])\<rparr>"

text \<open>
  The text of a number behind \<open>k\<close> minus signs, and its tree: \<open>k\<close> nested unary operations,
  each with its operator and its operand as children, inside an expression statement
  inside a module.
\<close>

definition minus_text :: "nat \<Rightarrow> string" where
  "minus_text k = replicate k (CHR ''-'') @ ''1''"

fun unary_chain :: "nat \<Rightarrow> node" where
  "unary_chain 0 = Other []"
| "unary_chain (Suc k) = Other [Other [], unary_chain k]"

definition minus_tree :: "nat \<Rightarrow> node" where
  "minus_tree k = Other [Other [unary_chain k]]"

text \<open>The same environment with a parser that also knows the text of 500 minus signs,
  which \<^verbatim>\<open>ast.parse\<close> accepts; the visitor cannot walk its tree within 1000 frames.\<close>

definition deep_env :: env where
  "deep_env =
     sample_env\<lparr>parse := (\<lambda>d code. if code = minus_text 500 then Parsed (minus_tree 500)
                                    else parse sample_env d code)\<rparr>"

text \<open>The same environment with a parser that fails on the text of 5000 minus signs with
  an exception that is not a \<^verbatim>\<open>SyntaxError\<close>, as \<^verbatim>\<open>ast.parse\<close> does: the nesting is too deep for
  it.\<close>

definition overflow_env :: env where
  "overflow_env =
     sample_env\<lparr>parse := (\<lambda>d code. if code = minus_text 5000
                                    then OtherError ''maximum recursion depth exceeded''
                                    else parse sample_env d code)\<rparr>"

text \<open>The same environment with a comparison that raises on sequences that differ.\<close>

definition raising_env :: env where
  "raising_env =
     sample_env\<lparr>compare := (\<lambda>a b. if a = b then Inr (map (\<lambda>l. ''  '' @ l) a)
                                   else Inl ''maximum recursion depth exceeded'')\<rparr>"

section \<open>Code blocks of a message (components/chat_interface.py)\<close>

text \<open>
  \<^verbatim>\<open>re.finditer\<close>: the matches from left to right, each search starting where the previous
  match ended. A match of the two patterns below is never empty; after an empty match the
  search moves on by one character. The counter bounds the number of matches by the
  number of positions.
\<close>

fun finditer_from :: "regex \<Rightarrow> string \<Rightarrow> nat \<Rightarrow> nat \<Rightarrow> (nat \<times> mstate) list" where
  "finditer_from r s pos 0 = []"
| "finditer_from r s pos (Suc k) =
     (if pos > length s then []
      else
        (case search_at r s pos (length s - pos) of
           None \<Rightarrow> []
         | Some im \<Rightarrow>
             im # finditer_from r s (if fst (snd im) > fst im then fst (snd im) else Suc (fst im)) k))"

definition re_finditer :: "regex \<Rightarrow> string \<Rightarrow> (nat \<times> mstate) list" where
  "re_finditer r s = finditer_from r s 0 (Suc (length s))"

text \<open>\<^verbatim>\<open>match.group(0)\<close> and \<^verbatim>\<open>match.group(k)\<close> for a group that took part in the match (the
  empty text stands in for a group that did not).\<close>

definition whole_match :: "string \<Rightarrow> nat \<times> mstate \<Rightarrow> string" where
  "whole_match s im = take (fst (snd im) - fst im) (drop (fst im) s)"

definition group_text :: "nat \<Rightarrow> string \<Rightarrow> nat \<times> mstate \<Rightarrow> string" where
  "group_text k s im = (case match_group k s (snd im) of None \<Rightarrow> [] | Some t \<Rightarrow> t)"

definition fence :: string where
  "fence = ''```''"

text \<open>The two patterns of \<^verbatim>\<open>_detect_code_blocks\<close>, both run under \<^verbatim>\<open>re.DOTALL\<close>, where the
  dot matches every character.\<close>

definition pattern_with_lang :: regex where
  "pattern_with_lang =
     seqs [Lit fence, Opt (Group 1 (Plus W)), Lit [nl], Group 2 (LazyStar AnyChar),
           Lit (nl # fence)]"

definition pattern_without_lang :: regex where
  "pattern_without_lang =
     seqs [Lit fence, Opt (Lit [nl]), Group 1 (LazyStar AnyChar), Opt (Lit [nl]), Lit fence]"

record code_block =
  cb_language :: string
  cb_code :: string
  cb_original :: string

text \<open>The first loop: \<^verbatim>\<open>language = match.group(1) or 'text'\<close>.\<close>

definition block_with_lang :: "string \<Rightarrow> nat \<times> mstate \<Rightarrow> code_block" where
  "block_with_lang text im =
     \<lparr>cb_language = (if group_text 1 text im = [] then ''text'' else group_text 1 text im),
      cb_code = strip (group_text 2 text im),
      cb_original = whole_match text im\<rparr>"

text \<open>The second loop: a match is added unless a block with the same \<^verbatim>\<open>original\<close> is
  already there.\<close>

fun blocks_without_lang :: "string \<Rightarrow> (nat \<times> mstate) list \<Rightarrow> code_block list \<Rightarrow> code_block list" where
  "blocks_without_lang text [] code_blocks = code_blocks"
| "blocks_without_lang text (im # rest) code_blocks =
     blocks_without_lang text rest
       (if \<not> list_ex (\<lambda>block. cb_original block = whole_match text im) code_blocks
        then code_blocks @
               [\<lparr>cb_language = guess_language (strip (group_text 1 text im)),
                 cb_code = strip (group_text 1 text im),
                 cb_original = whole_match text im\<rparr>]
        else code_blocks)"

definition detect_code_blocks :: "string \<Rightarrow> code_block list" where
  "detect_code_blocks text =
     blocks_without_lang text (re_finditer pattern_without_lang text)
       (map (block_with_lang text) (re_finditer pattern_with_lang text))"

text \<open>A snippet that is one fenced block: the fence, the language tag, a newline, the
  enclosed code, a newline, the fence.\<close>

definition fenced :: "string \<Rightarrow> string \<Rightarrow> string" where
  "fenced lang body = fence @ lang @ [nl] @ body @ [nl] @ fence"

section \<open>Properties of the rule engine\<close>

lemma mandatory_of_code: "set (mandatory_of ''code'') = {''no_omissions'', ''maintain_style''}"
  by (simp add: mandatory_of_def ANALYSIS_RULES_def)

lemma foldl_merge_step_mono: "acc \<subseteq> foldl merge_step acc cs"
proof (induction cs arbitrary: acc)
  case Nil
  show ?case by simp
next
  case (Cons c cs)
  have "acc \<subseteq> merge_step acc c"
    by (auto simp: merge_step_def split: option.splits)
  also have "\<dots> \<subseteq> foldl merge_step (merge_step acc c) cs"
    by (rule Cons.IH)
  finally show ?case by simp
qed

lemma merge_step_mandatory: "set (mandatory_of c) \<subseteq> merge_step acc c"
  by (auto simp: merge_step_def mandatory_of_def split: option.splits)

text \<open>
  C5. For every preset argument (absent, known or unknown), the active rules of
  \<^verbatim>\<open>"code"\<close> contain \<^verbatim>\<open>no_omissions\<close> and \<^verbatim>\<open>maintain_style\<close>; and for every content type
  and every preset the active rules contain the mandatory rules of that content type.
\<close>

theorem C5_active_rules_superset_mandatory:
  "{''no_omissions'', ''maintain_style''} \<subseteq> get_active_rules ''code'' preset
   \<and> set (mandatory_of content_type) \<subseteq> get_active_rules content_type preset"
proof -
  have gen: "set (mandatory_of ct) \<subseteq> get_active_rules ct preset" for ct
    by (auto simp: get_active_rules_def Let_def split: option.splits)
  from gen [of "''code''"] gen [of content_type] show ?thesis
    by (simp only: mandatory_of_code simp_thms)
qed

theorem C5_active_rules_witness:
  "{''no_omissions'', ''maintain_style''} \<subseteq> get_active_rules ''code'' (Some ''technical'')
   \<and> set (mandatory_of ''data'') \<subseteq> get_active_rules ''data'' (Some ''technical'')"
  using C5_active_rules_superset_mandatory [of "Some ''technical''" "''data''"] by simp

text \<open>
  C6. Merging \<^verbatim>\<open>["code", "data"]\<close> gives a superset of merging \<^verbatim>\<open>["code"]\<close> united with
  the mandatory rules of \<^verbatim>\<open>"data"\<close>; the same holds for any list and any added category.
\<close>

theorem C6_merge_rule_sets_monotonic:
  "merge_rule_sets [''code''] \<union> set (mandatory_of ''data'') \<subseteq> merge_rule_sets [''code'', ''data'']
   \<and> merge_rule_sets cs \<union> set (mandatory_of c) \<subseteq> merge_rule_sets (cs @ [c])"
proof -
  have gen: "merge_rule_sets xs \<union> set (mandatory_of x) \<subseteq> merge_rule_sets (xs @ [x])" for xs x
  proof -
    have "merge_rule_sets (xs @ [x]) = merge_step (merge_rule_sets xs) x"
      by (simp add: merge_rule_sets_def)
    moreover have "merge_rule_sets xs \<subseteq> merge_step (merge_rule_sets xs) x"
      by (auto simp: merge_step_def split: option.splits)
    ultimately show ?thesis
      using merge_step_mandatory [of x "merge_rule_sets xs"] by simp
  qed
  from gen [of "[''code'']" "''data''"] gen [of cs c] show ?thesis by simp
qed

section \<open>Properties of the code statistics\<close>

lemma classified_classify_line: "classified (classify_line s d st) = Suc (classified st)"
  by (simp add: classify_line_def classified_def Let_def)

lemma total_lines_classify_line: "total_lines (classify_line s d st) = total_lines st"
  by (simp add: classify_line_def Let_def)

lemma classified_stats_line: "classified (stats (stats_line lp l)) \<le> Suc (classified (stats lp))"
  by (simp add: stats_line_def Let_def classified_classify_line) (simp add: classified_def)

lemma total_lines_stats_line: "total_lines (stats (stats_line lp l)) = total_lines (stats lp)"
  by (simp add: stats_line_def Let_def total_lines_classify_line)

lemma classified_foldl:
  "classified (stats (foldl stats_line lp ls)) \<le> classified (stats lp) + length ls"
proof (induction ls arbitrary: lp)
  case Nil
  show ?case by simp
next
  case (Cons l ls)
  have "classified (stats (foldl stats_line (stats_line lp l) ls))
        \<le> classified (stats (stats_line lp l)) + length ls"
    by (rule Cons.IH)
  also have "\<dots> \<le> Suc (classified (stats lp)) + length ls"
    using classified_stats_line [of lp l] by simp
  finally show ?case by simp
qed

lemma total_lines_foldl: "total_lines (stats (foldl stats_line lp ls)) = total_lines (stats lp)"
  by (induction ls arbitrary: lp) (simp_all add: total_lines_stats_line)

lemma contains_self: "s \<noteq> [] \<Longrightarrow> contains s s"
  by (cases s) simp_all

lemma contains_append_left: "contains s sub \<Longrightarrow> contains (p @ s) sub"
proof (induction p)
  case Nil
  then show ?case by simp
next
  case (Cons a p)
  then show ?case by simp
qed

lemma contains_append_right: "contains s sub \<Longrightarrow> contains (s @ q) sub"
proof (induction s)
  case Nil
  then show ?case by (cases q) simp_all
next
  case (Cons a s)
  from Cons.prems have "take (length sub) (a # s) = sub \<or> contains s sub" by simp
  then show ?case
  proof
    assume t: "take (length sub) (a # s) = sub"
    then have "length (take (length sub) (a # s)) = length sub"
      by simp
    then have le: "length sub - length (a # s) = 0"
      by simp
    have "take (length sub) ((a # s) @ q)
          = take (length sub) (a # s) @ take (length sub - length (a # s)) q"
      by (rule take_append)
    also have "\<dots> = sub"
      by (simp only: le t take_0 append_Nil2)
    finally show ?thesis by simp
  next
    assume "contains s sub"
    then have "contains (s @ q) sub" by (rule Cons.IH)
    then show ?thesis by simp
  qed
qed

lemma strip_decompose:
  "\<exists>p q. s = p @ strip s @ q"
proof -
  let ?a = "dropWhile is_space s"
  have 1: "s = takeWhile is_space s @ ?a" by simp
  have 2: "rev ?a = takeWhile is_space (rev ?a) @ dropWhile is_space (rev ?a)" by simp
  have "?a = rev (dropWhile is_space (rev ?a)) @ rev (takeWhile is_space (rev ?a))"
    by (metis 2 rev_append rev_rev_ident)
  then have "?a = strip s @ rev (takeWhile is_space (rev ?a))"
    by (simp add: strip_def)
  with 1 have "s = takeWhile is_space s @ strip s @ rev (takeWhile is_space (rev ?a))"
    by simp
  then show ?thesis by blast
qed

lemma contains_strip: "strip s = t \<Longrightarrow> t \<noteq> [] \<Longrightarrow> contains s t"
proof -
  assume a: "strip s = t" and b: "t \<noteq> []"
  obtain p q where "s = p @ strip s @ q" using strip_decompose by blast
  then have s: "s = p @ (t @ q)" using a by simp
  have "contains (t @ q) t" using b by (simp add: contains_self contains_append_right)
  then have "contains (p @ (t @ q)) t" by (rule contains_append_left)
  with s show ?thesis by simp
qed

lemma only_quotes_unchanged:
  assumes "strip line = triple_dq \<or> strip line = triple_sq"
  shows "stats (stats_line lp line) = (stats lp)\<lparr>max_line_length := max (max_line_length (stats lp)) (length line)\<rparr>"
proof -
  have ne: "line \<noteq> []" using assms by (auto simp: strip_def triple_dq_def triple_sq_def)
  have c: "contains line triple_dq \<or> contains line triple_sq"
    using assms contains_strip [of line] by (auto simp: triple_dq_def triple_sq_def)
  have d: "strip (drop 3 (strip line)) = []"
    using assms by (auto simp: triple_dq_def triple_sq_def strip_def)
  show ?thesis using ne c d by (simp add: stats_line_def Let_def)
qed

text \<open>
  C10. The four line categories of \<^verbatim>\<open>_get_code_stats\<close> add up to at most
  \<^verbatim>\<open>total_lines\<close>, for every input. A line that, white space aside, is only a
  triple-quote delimiter leaves the four counters as they were; for the input that is one
  such line the inequality is strict.
\<close>

theorem C10_line_categories_bounded:
  "classified (get_code_stats code) \<le> total_lines (get_code_stats code)
   \<and> (strip line = triple_dq \<or> strip line = triple_sq \<longrightarrow>
        classified (stats (stats_line lp line)) = classified (stats lp))
   \<and> classified (get_code_stats triple_dq) < total_lines (get_code_stats triple_dq)"
proof -
  let ?ls = "split_on CHR 0x0A code"
  let ?start = "\<lparr>stats = initial_stats ?ls, total_length = 0, in_docstring = False,
               docstring_quotes = 0\<rparr>"
  let ?lp = "foldl stats_line ?start ?ls"
  have "classified (stats ?lp) \<le> classified (stats ?start) + length ?ls"
    by (rule classified_foldl)
  moreover have "classified (stats ?start) = 0"
    by (simp add: classified_def initial_stats_def)
  moreover have "total_lines (stats ?lp) = length ?ls"
    by (simp add: total_lines_foldl initial_stats_def)
  ultimately have le: "classified (stats ?lp) \<le> total_lines (stats ?lp)" by simp
  have 1: "classified (get_code_stats code) \<le> total_lines (get_code_stats code)"
    using le by (simp add: get_code_stats_def Let_def classified_def)
  have 2: "classified (stats (stats_line lp line)) = classified (stats lp)"
    if "strip line = triple_dq \<or> strip line = triple_sq"
    using only_quotes_unchanged [OF that, of lp] by (simp add: classified_def)
  have 3: "classified (get_code_stats triple_dq) < total_lines (get_code_stats triple_dq)"
    by (simp add: get_code_stats_def Let_def classified_def initial_stats_def stats_line_def
        triple_dq_def triple_sq_def strip_def is_space_def space_codes_def)
  show ?thesis using 1 2 3 by simp
qed

theorem C10_line_categories_witness:
  "classified (get_code_stats (''x = 1'' @ [CHR 0x0A] @ triple_sq)) \<le>
     total_lines (get_code_stats (''x = 1'' @ [CHR 0x0A] @ triple_sq))
   \<and> strip (''  '' @ triple_sq @ '' '') = triple_sq
   \<and> classified (stats (stats_line
        \<lparr>stats = initial_stats [], total_length = 0, in_docstring = False, docstring_quotes = 0\<rparr>
        (''  '' @ triple_sq @ '' ''))) = 0"
proof -
  have s: "strip (''  '' @ triple_sq @ '' '') = triple_sq"
    by (simp add: strip_def triple_sq_def is_space_def space_codes_def)
  have z: "classified (stats \<lparr>stats = initial_stats [], total_length = 0, in_docstring = False,
             docstring_quotes = 0\<rparr>) = 0"
    by (simp add: classified_def initial_stats_def)
  show ?thesis
    using C10_line_categories_bounded
      [of "''x = 1'' @ [CHR 0x0A] @ triple_sq" "''  '' @ triple_sq @ '' ''"
          "\<lparr>stats = initial_stats [], total_length = 0, in_docstring = False,
            docstring_quotes = 0\<rparr>"] s z
    by simp
qed

section \<open>Properties of the content classifier\<close>

lemma json_example_conversational: "is_conversational json_example"
  by code_simp

lemma ciao_def_tokens: "length (split_ws ''ciao def'') < 15"
  by code_simp

lemma ciao_def_conversational: "any_match conversation_patterns (lower ''ciao def'')"
  by code_simp

lemma ciao_def_technical: "any_match technical_indicators (lower ''ciao def'')"
  by code_simp

lemma debug_this_not_conversational:
  "\<not> any_match conversation_patterns (lower ''debug this'')"
  by code_simp

lemma debug_this_technical: "any_match technical_indicators (lower ''debug this'')"
  by code_simp

lemma map_file_type_values:
  "map_file_type_to_content_type ft \<in> {''general'', ''code'', ''data''}"
proof (cases "map_of file_type_mappings (lower ft)")
  case None
  then show ?thesis by (simp add: map_file_type_to_content_type_def)
next
  case (Some t)
  then have "(lower ft, t) \<in> set file_type_mappings" by (rule map_of_SomeD)
  then have "t = ''code'' \<or> t = ''data''"
    by (auto simp: file_type_mappings_def)
  with Some show ?thesis by (auto simp: map_file_type_to_content_type_def)
qed

lemma map_file_type_not_conversation:
  "map_file_type_to_content_type ft \<noteq> ''conversation''"
  using map_file_type_values [of ft] by auto

lemma determine_type_from_files_not_conversation:
  "determine_type_from_files files \<noteq> ''conversation''"
proof (induction files)
  case Nil
  show ?case by simp
next
  case (Cons f files)
  then show ?case
    using map_file_type_not_conversation by (simp add: Let_def)
qed

lemma not_conversational_result:
  "\<not> is_conversational content \<Longrightarrow> determine_content_type content ctx \<noteq> ''conversation''"
  using map_file_type_not_conversation determine_type_from_files_not_conversation
  by (simp add: determine_content_type_def split: option.splits)

text \<open>
  C1 (as stated, refuted). On the JSON example the classifier does not answer
  \<^verbatim>\<open>data\<close>.
\<close>

theorem C1_json_example_not_data: "determine_content_type json_example None \<noteq> ''data''"
  using json_example_conversational by (simp add: determine_content_type_def)

text \<open>
  C1 (amended). On the JSON example, with any context or none, the classifier answers
  \<^verbatim>\<open>conversation\<close>: the text has four tokens, matches no technical indicator, and the
  conversational test accepts every such text before the data test is reached.
\<close>

theorem C1_json_example_conversation:
  "determine_content_type json_example ctx = ''conversation''"
  using json_example_conversational by (simp add: determine_content_type_def)

text \<open>
  C2 (as stated, refuted). A text of fewer than 15 tokens that matches a conversational
  pattern and a technical indicator can still be classified \<^verbatim>\<open>conversation\<close>.
\<close>

theorem C2_technical_signal_no_override:
  "\<not> (\<forall>content. length (split_ws content) < 15
          \<and> any_match conversation_patterns (lower content)
          \<and> any_match technical_indicators (lower content)
        \<longrightarrow> determine_content_type content None \<noteq> ''conversation'')"
proof
  assume a: "\<forall>content. length (split_ws content) < 15
          \<and> any_match conversation_patterns (lower content)
          \<and> any_match technical_indicators (lower content)
        \<longrightarrow> determine_content_type content None \<noteq> ''conversation''"
  have "determine_content_type ''ciao def'' None \<noteq> ''conversation''"
    using a ciao_def_tokens ciao_def_conversational ciao_def_technical by blast
  moreover have "determine_content_type ''ciao def'' None = ''conversation''"
    using ciao_def_tokens ciao_def_conversational
    by (simp add: determine_content_type_def is_conversational_def Let_def)
  ultimately show False by simp
qed

text \<open>
  C2 (amended). A text of fewer than 15 tokens that matches a conversational pattern is
  classified \<^verbatim>\<open>conversation\<close>, whether or not a technical indicator matches too. The
  technical indicators decide only for the other texts: there, a text that matches one of
  them is never classified \<^verbatim>\<open>conversation\<close>.
\<close>

theorem C2_conversational_pattern_first:
  "(length (split_ws content) < 15 \<and> any_match conversation_patterns (lower content)
      \<longrightarrow> determine_content_type content ctx = ''conversation'')
   \<and> (\<not> (length (split_ws content) < 15 \<and> any_match conversation_patterns (lower content))
        \<and> any_match technical_indicators (lower content)
      \<longrightarrow> determine_content_type content ctx \<noteq> ''conversation'')"
proof (intro conjI impI)
  assume "length (split_ws content) < 15 \<and> any_match conversation_patterns (lower content)"
  then show "determine_content_type content ctx = ''conversation''"
    by (simp add: determine_content_type_def is_conversational_def Let_def)
next
  assume "\<not> (length (split_ws content) < 15 \<and> any_match conversation_patterns (lower content))
          \<and> any_match technical_indicators (lower content)"
  then have "\<not> is_conversational content"
    by (auto simp: is_conversational_def Let_def)
  then show "determine_content_type content ctx \<noteq> ''conversation''"
    by (rule not_conversational_result)
qed

theorem C2_conversational_pattern_first_witness:
  "length (split_ws ''ciao def'') < 15
   \<and> any_match conversation_patterns (lower ''ciao def'')
   \<and> any_match technical_indicators (lower ''ciao def'')
   \<and> determine_content_type ''ciao def'' None = ''conversation''
   \<and> \<not> any_match conversation_patterns (lower ''debug this'')
   \<and> any_match technical_indicators (lower ''debug this'')
   \<and> determine_content_type ''debug this'' None \<noteq> ''conversation''"
  using C2_conversational_pattern_first [of "''ciao def''" None]
    C2_conversational_pattern_first [of "''debug this''" None]
    ciao_def_tokens ciao_def_conversational ciao_def_technical
    debug_this_not_conversational debug_this_technical
  by blast

section \<open>Properties of the diff summarizer\<close>

text \<open>The block under construction, put in front of the pieces still to come.\<close>

lemma cut_at_not_Nil: "cut_at P xs \<noteq> []"
  by (induction xs) (auto split: list.splits)

lemma hint_not_change: "is_hint_line l \<Longrightarrow> \<not> is_change_line l"
  by (cases l) (auto simp: is_hint_line_def is_change_line_def startswith_def)

lemma diff_loop_blocks:
  "diff_loop ls summary block =
     foldl flush_block summary
       (filter (\<lambda>b. b \<noteq> [])
          (case cut_at (\<lambda>l. \<not> is_change_line l) (filter (\<lambda>l. \<not> is_hint_line l) ls) of
             [] \<Rightarrow> [block] | b # bs \<Rightarrow> (block @ b) # bs))"
proof (induction ls arbitrary: summary block)
  case Nil
  show ?case by simp
next
  case (Cons line rest)
  let ?cut = "cut_at (\<lambda>l. \<not> is_change_line l) (filter (\<lambda>l. \<not> is_hint_line l) rest)"
  obtain b bs where cut: "?cut = b # bs"
    using cut_at_not_Nil [of "\<lambda>l. \<not> is_change_line l" "filter (\<lambda>l. \<not> is_hint_line l) rest"]
    by (cases ?cut) auto
  show ?case
  proof (cases "is_hint_line line")
    case True
    then show ?thesis
      using Cons.IH [of summary block] by (simp add: is_hint_line_def)
  next
    case nh: False
    show ?thesis
    proof (cases "is_change_line line")
      case True
      then show ?thesis
        using nh Cons.IH [of summary "block @ [line]"] cut
        by (auto simp: is_hint_line_def is_change_line_def)
    next
      case False
      then show ?thesis
        using nh Cons.IH [of "flush_block summary block" "[]"] Cons.IH [of summary "[]"] cut
        by (auto simp: is_hint_line_def is_change_line_def)
    qed
  qed
qed

lemma change_blocks_ignore_hints:
  "change_blocks (filter (\<lambda>l. \<not> is_hint_line l) diff) = change_blocks diff"
  by (simp add: change_blocks_def)

text \<open>
  C3 (as stated, refuted). Two change lines separated only by a \<^verbatim>\<open>'? '\<close> line are
  summarized as one block of two lines, where the summarizer described by the claim gives
  two summaries of one line each.
\<close>

theorem C3_hint_line_keeps_block:
  "generate_diff_summary [''- a'', ''? ^'', ''+ b''] = [''Modificate 2 linee'']
   \<and> spec_generate_diff_summary [''- a'', ''? ^'', ''+ b'']
       = [''Modificata una linea'', ''Modificata una linea'']
   \<and> generate_diff_summary [''- a'', ''? ^'', ''+ b'']
       \<noteq> spec_generate_diff_summary [''- a'', ''? ^'', ''+ b'']"
  by code_simp

text \<open>
  C3 (amended). The summarizer skips every \<^verbatim>\<open>'? '\<close> line without touching the current
  block; it gathers consecutive \<^verbatim>\<open>'+ '\<close>/\<^verbatim>\<open>'- '\<close> lines into a block and flushes the block at
  every context line and at the end of the input. So the summary is the flush, in order,
  of the change blocks of the diff with its \<^verbatim>\<open>'? '\<close> lines removed, and the \<^verbatim>\<open>'? '\<close> lines
  do not change the result.
\<close>

theorem C3_diff_summary_by_blocks:
  "generate_diff_summary diff = foldl flush_block [] (change_blocks diff)
   \<and> generate_diff_summary (filter (\<lambda>l. \<not> is_hint_line l) diff) = generate_diff_summary diff"
proof -
  have eq: "generate_diff_summary d = foldl flush_block [] (change_blocks d)" for d
  proof -
    let ?cut = "cut_at (\<lambda>l. \<not> is_change_line l) (filter (\<lambda>l. \<not> is_hint_line l) d)"
    have "(case ?cut of [] \<Rightarrow> [[]] | b # bs \<Rightarrow> ([] @ b) # bs) = ?cut"
      using cut_at_not_Nil [of "\<lambda>l. \<not> is_change_line l" "filter (\<lambda>l. \<not> is_hint_line l) d"]
      by (cases ?cut) auto
    then show ?thesis
      using diff_loop_blocks [of d "[]" "[]"]
      by (simp add: generate_diff_summary_def change_blocks_def)
  qed
  show ?thesis
    using eq [of diff] eq [of "filter (\<lambda>l. \<not> is_hint_line l) diff"]
    by (simp add: change_blocks_ignore_hints)
qed

section \<open>Properties of the language guesser\<close>

lemma lower_char_not_upper: "\<not> is_upper_code (of_char (lower_char c))"
proof (cases "is_upper_code (of_char c)")
  case True
  let ?n = "of_char c :: nat"
  from True have r: "(65 \<le> ?n \<and> ?n \<le> 90) \<or> (192 \<le> ?n \<and> ?n \<le> 222)"
    by (auto simp: is_upper_code_def)
  then have "(?n + 32) mod 256 = ?n + 32" by auto
  then have "of_char (char_of (?n + 32)) = ?n + 32"
    by (simp add: of_char_of)
  moreover have "\<not> is_upper_code (?n + 32)"
    using r by (auto simp: is_upper_code_def)
  ultimately show ?thesis using True by (simp add: lower_char_def)
next
  case False
  then show ?thesis by (simp add: lower_char_def)
qed

lemma lower_no_upper: "d \<in> set (lower s) \<Longrightarrow> \<not> is_upper_code (of_char d)"
  by (auto simp: lower_def lower_char_not_upper)

lemma contains_set: "contains s sub \<Longrightarrow> set sub \<subseteq> set s"
proof (induction s)
  case Nil
  then show ?case by simp
next
  case (Cons c s)
  from Cons.prems have "take (length sub) (c # s) = sub \<or> contains s sub" by simp
  then show ?case
  proof
    assume "take (length sub) (c # s) = sub"
    then have "set sub = set (take (length sub) (c # s))" by simp
    then show ?thesis using set_take_subset [of "length sub" "c # s"] by blast
  next
    assume "contains s sub"
    then have "set sub \<subseteq> set s" by (rule Cons.IH)
    then show ?thesis by auto
  qed
qed

lemma count_sub_absent: "\<not> contains s sub \<Longrightarrow> count_sub s sub = 0"
proof (induction s)
  case Nil
  show ?case by simp
next
  case (Cons c s)
  then show ?case by simp
qed

lemma upper_indicator_absent:
  assumes "x \<in> set ind" and "is_upper_code (of_char x)"
  shows "\<not> contains (lower s) ind"
proof
  assume "contains (lower s) ind"
  then have "x \<in> set (lower s)" using assms(1) contains_set by blast
  then show False using assms(2) lower_no_upper by blast
qed

text \<open>Removing from a table indicators that do not occur in the text changes nothing.\<close>

lemma lang_score_filter:
  "(\<And>ind. \<not> keep ind \<Longrightarrow> \<not> contains code ind) \<Longrightarrow>
   lang_score code (filter (\<lambda>(ind, w). keep ind) lst) score = lang_score code lst score"
proof (induction lst arbitrary: score)
  case Nil
  show ?case by simp
next
  case (Cons a lst)
  obtain ind w where a: "a = (ind, w)" by (cases a)
  show ?case
  proof (cases "keep ind")
    case True
    then show ?thesis using Cons a by simp
  next
    case False
    then have "count_sub code ind = 0" using Cons.prems count_sub_absent by blast
    then show ?thesis using False Cons a by simp
  qed
qed

lemma present_indicators_filter:
  "(\<And>ind. \<not> keep ind \<Longrightarrow> \<not> contains code ind) \<Longrightarrow>
   present_indicators code (filter (\<lambda>(ind, w). keep ind) lst) = present_indicators code lst"
proof -
  assume a: "\<And>ind. \<not> keep ind \<Longrightarrow> \<not> contains code ind"
  have "filter (\<lambda>(ind, w). contains code ind) (filter (\<lambda>(ind, w). keep ind) lst)
        = filter (\<lambda>(ind, w). contains code ind) lst"
    using a by (induction lst) auto
  then show ?thesis by (simp add: present_indicators_def)
qed

lemma list_ex_filter_keep:
  "(\<And>ind. \<not> keep ind \<Longrightarrow> \<not> contains code ind) \<Longrightarrow>
   list_ex (\<lambda>(ind, w). contains code ind) (filter (\<lambda>(ind, w). keep ind) lst)
   = list_ex (\<lambda>(ind, w). contains code ind) lst"
  by (induction lst) auto

lemma entry_reduce_table:
  "entry (reduce_table keep tbl) k [] = filter (\<lambda>(ind, w). keep ind) (entry tbl k [])"
  by (induction tbl) (auto simp: entry_def reduce_table_def)

lemma compute_scores_reduce_table:
  "(\<And>ind. \<not> keep ind \<Longrightarrow> \<not> contains code ind) \<Longrightarrow>
   compute_scores (reduce_table keep tbl) code = compute_scores tbl code"
  by (induction tbl) (auto simp: compute_scores_def reduce_table_def lang_score_filter)

lemma guess_language_core_reduce_table:
  assumes "\<And>ind. \<not> keep ind \<Longrightarrow> \<not> contains code ind"
  shows "guess_language_core (reduce_table keep tbl) code = guess_language_core tbl code"
proof -
  have 1: "compute_scores (reduce_table keep tbl) code = compute_scores tbl code"
    by (rule compute_scores_reduce_table) (rule assms)
  have 2: "present_indicators code (filter (\<lambda>(ind, w). keep ind) lst)
           = present_indicators code lst" for lst
    by (rule present_indicators_filter) (rule assms)
  have 3: "list_ex (\<lambda>(ind, w). contains code ind) (filter (\<lambda>(ind, w). keep ind) lst)
           = list_ex (\<lambda>(ind, w). contains code ind) lst" for lst
    by (rule list_ex_filter_keep) (rule assms)
  show ?thesis
    unfolding guess_language_core_def boost_python_def
    by (simp only: 1 2 3 entry_reduce_table)
qed

lemma indicators_reduced_eq:
  "indicators_reduced =
     reduce_table (\<lambda>ind. ind \<noteq> ''None'' \<and> ind \<noteq> ''True'' \<and> ind \<noteq> ''False'') indicators"
  by (simp add: indicators_reduced_def indicators_def reduce_table_def)

text \<open>
  C9. The searched text is lower-cased, so it holds none of the indicators \<^verbatim>\<open>None\<close>,
  \<^verbatim>\<open>True\<close> and \<^verbatim>\<open>False\<close> (each has an upper-case letter): their counts are zero, and for
  every input \<^verbatim>\<open>_guess_language\<close> returns what it returns with the three entries removed
  from the table.
\<close>

theorem C9_case_sensitive_indicators_dead:
  "guess_language code = guess_language_reduced code
   \<and> count_sub (lower (strip code)) ''None'' = 0
   \<and> count_sub (lower (strip code)) ''True'' = 0
   \<and> count_sub (lower (strip code)) ''False'' = 0"
proof -
  let ?c = "lower (strip code)"
  have n: "\<not> contains ?c ''None''"
    by (rule upper_indicator_absent [of "CHR ''N''"]) (simp_all add: is_upper_code_def)
  have t: "\<not> contains ?c ''True''"
    by (rule upper_indicator_absent [of "CHR ''T''"]) (simp_all add: is_upper_code_def)
  have f: "\<not> contains ?c ''False''"
    by (rule upper_indicator_absent [of "CHR ''F''"]) (simp_all add: is_upper_code_def)
  have "\<not> contains ?c ind"
    if "\<not> (ind \<noteq> ''None'' \<and> ind \<noteq> ''True'' \<and> ind \<noteq> ''False'')" for ind
    using that n t f by auto
  then have "guess_language_core indicators_reduced ?c = guess_language_core indicators ?c"
    unfolding indicators_reduced_eq by (rule guess_language_core_reduce_table)
  then show ?thesis
    using n t f by (simp add: guess_language_def guess_language_reduced_def count_sub_absent)
qed

section \<open>Properties of the code analyzer\<close>

lemma count_lines_unchanged: "count_lines (map (\<lambda>l. ''  '' @ l) ls) ch = ch"
  by (induction ls) (simp_all add: startswith_def)

lemma dict_set_keys: "set (map fst (dict_set d k v)) = insert k (set (map fst d))"
proof (induction d)
  case Nil
  show ?case by simp
next
  case (Cons a d)
  obtain k' v' where a: "a = (k', v')" by (cases a)
  show ?case
  proof (cases "k' = k")
    case True
    then show ?thesis using a by simp
  next
    case False
    then have "set (map fst (dict_set (a # d) k v)) = insert k' (set (map fst (dict_set d k v)))"
      using a by simp
    also have "\<dots> = insert k' (insert k (set (map fst d)))"
      by (simp only: Cons.IH)
    finally show ?thesis using a by auto
  qed
qed

lemma dict_set_distinct: "distinct (map fst d) \<Longrightarrow> distinct (map fst (dict_set d k v))"
proof (induction d)
  case Nil
  show ?case by simp
next
  case (Cons a d)
  obtain k' v' where a: "a = (k', v')" by (cases a)
  show ?case
  proof (cases "k' = k")
    case True
    then show ?thesis using Cons.prems a by simp
  next
    case False
    have "k' \<notin> set (map fst (dict_set d k v))"
      using Cons.prems a False by (simp only: dict_set_keys) auto
    then show ?thesis using Cons a False by simp
  qed
qed

lemma collect_funcs_distinct:
  "distinct (map fst d) \<Longrightarrow> distinct (map fst (collect_funcs ns d))"
proof (induction ns d rule: collect_funcs.induct)
  case (1 d)
  then show ?case by simp
next
  case (2 name n ch ns d)
  then show ?case by (simp add: dict_set_distinct)
qed simp_all

lemma function_table_distinct: "distinct (map fst (function_table tree))"
  by (simp add: function_table_def collect_funcs_distinct)

text \<open>Against itself a function table shows no removed and no changed function.\<close>

lemma removed_or_changed_same:
  "distinct (map fst d) \<Longrightarrow> set xs \<subseteq> set d \<Longrightarrow> removed_or_changed xs d breaking = breaking"
proof (induction xs arbitrary: breaking)
  case Nil
  show ?case by simp
next
  case (Cons a xs)
  obtain name n where a: "a = (name, n)" by (cases a)
  then have "(name, n) \<in> set d" using Cons.prems(2) by simp
  then have "map_of d name = Some n" using Cons.prems(1) by simp
  then show ?case using Cons a by simp
qed

lemma complexity_step_keeps:
  "lines_added (complexity_step e code prev ch) = lines_added ch
   \<and> lines_removed (complexity_step e code prev ch) = lines_removed ch
   \<and> breaking_changes (complexity_step e code prev ch) = breaking_changes ch"
  by (simp add: complexity_step_def Let_def split: sum.splits)

lemma functions_step_lines:
  "lines_added (functions_step e code prev ch) = lines_added ch
   \<and> lines_removed (functions_step e code prev ch) = lines_removed ch"
  by (simp add: functions_step_def Let_def split: parse_result.splits)

lemma functions_step_same:
  "snap_code prev = code \<Longrightarrow>
   breaking_changes (functions_step e code prev ch) = breaking_changes ch"
proof (cases "parse e (stack e - Suc 0) code")
  case (Parsed tree)
  assume "snap_code prev = code"
  moreover have "removed_or_changed (function_table tree) (function_table tree)
                   (breaking_changes ch) = breaking_changes ch"
    by (rule removed_or_changed_same) (simp_all add: function_table_distinct)
  ultimately show ?thesis using Parsed by (simp add: functions_step_def Let_def)
next
  case (SyntaxError m)
  then show ?thesis by (simp add: functions_step_def)
next
  case (OtherError m)
  then show ?thesis by (simp add: functions_step_def)
qed

lemma analyze_changes_same:
  assumes "differ_reflexive e" and "snap_code prev = code"
  shows "\<exists>vc. analyze_changes e code prev = Inr vc \<and> lines_added vc = 0
              \<and> lines_removed vc = 0 \<and> breaking_changes vc = []"
proof -
  have cmp: "compare e (splitlines code) (splitlines code)
             = Inr (map (\<lambda>l. ''  '' @ l) (splitlines code))"
    using assms(1) by (simp add: differ_reflexive_def)
  show ?thesis
    unfolding analyze_changes_def Let_def assms(2) cmp
    by (simp add: functions_step_lines functions_step_same [OF assms(2)] complexity_step_keeps
        count_lines_unchanged del: append.simps)
qed

text \<open>Whether the body raises does not depend on the active rules.\<close>

lemma enters_handler_rules:
  "enters_handler e pa code fi rules = enters_handler e pa code fi rules'"
  by (simp add: enters_handler_def analyze_body_def Let_def
      split: sum.splits option.splits)

text \<open>The body raises when the visitor does, or when the comparison with a cached
  analysis does.\<close>

lemma enters_handler_iff:
  "enters_handler e pa code fi rules =
     (isl (analyze_complexity e (stack e - 1) code)
      \<or> (case cache_key fi of
            None \<Rightarrow> False
          | Some name \<Rightarrow>
              (case pa name of
                 None \<Rightarrow> False
               | Some prev \<Rightarrow> isl (compare e (splitlines (snap_code prev)) (splitlines code)))))"
  by (simp add: enters_handler_def analyze_body_def analyze_changes_def Let_def
      split: sum.splits option.splits)

lemma analyze_code_handler:
  "enters_handler e pa code fi rules \<Longrightarrow> analyze_code e pa code fi rules = (fallback_result, pa)"
  by (cases "analyze_body e pa code fi rules")
     (simp_all add: enters_handler_def analyze_code_def)

lemma analyze_code_first:
  assumes "\<not> enters_handler e pa code (Some \<lparr>fi_name = Some name\<rparr>) rules"
  shows "snd (analyze_code e pa code (Some \<lparr>fi_name = Some name\<rparr>) rules) name
           = Some \<lparr>snap_code = code,
                   snap_analysis = fst (analyze_code e pa code (Some \<lparr>fi_name = Some name\<rparr>) rules)\<rparr>
         \<and> \<not> isl (analyze_complexity e (stack e - 1) code)"
  using assms
  by (simp add: enters_handler_def analyze_code_def analyze_body_def Let_def cache_key_def
      split: sum.splits option.splits)

lemma analyze_code_second:
  assumes "\<not> isl (analyze_complexity e (stack e - 1) code)" and "pa name = Some prev"
    and "analyze_changes e code prev = Inr vc"
  shows "ar_version_changes (fst (analyze_code e pa code (Some \<lparr>fi_name = Some name\<rparr>) rules))
         = Some vc"
proof -
  obtain c where "analyze_complexity e (stack e - 1) code = Inr c"
    using assms(1) by (cases "analyze_complexity e (stack e - 1) code") auto
  then show ?thesis
    using assms(2,3) by (simp add: analyze_code_def analyze_body_def Let_def cache_key_def)
qed

lemma visit_unary_chain: "d < 2 * Suc k \<Longrightarrow> visit d (unary_chain k) v = None"
proof (induction k arbitrary: d v)
  case 0
  then show ?case by (simp add: visit.simps)
next
  case (Suc k)
  have ih: "visit (d - 2) (unary_chain k) v' = None" for v'
    by (rule Suc.IH) (use Suc.prems in simp)
  have "visit d (Other [Other [], unary_chain k]) v = None"
    by (subst visit.simps) (simp add: ih split: option.splits)
  then show ?case by simp
qed

lemma visit_minus_tree: "visit 999 (minus_tree 500) v = None"
proof -
  have 1: "visit 995 (unary_chain 500) v' = None" for v'
    by (rule visit_unary_chain) simp
  have 2: "visit 997 (Other [unary_chain 500]) v' = None" for v'
    by (subst visit.simps) (simp add: 1)
  show ?thesis
    unfolding minus_tree_def by (subst visit.simps) (simp add: 2)
qed

lemma deep_env_enters_handler: "enters_handler deep_env pa (minus_text 500) fi rules"
  by (simp add: enters_handler_iff analyze_complexity_def deep_env_def sample_env_def
      visit_minus_tree)

lemma differ_reflexive_sample: "differ_reflexive sample_env"
  by (simp add: differ_reflexive_def sample_env_def)

lemma differ_reflexive_deep: "differ_reflexive deep_env"
  by (simp add: differ_reflexive_def deep_env_def sample_env_def)

text \<open>
  C7 (as stated, refuted). When \<^verbatim>\<open>ast.parse\<close> fails with an exception that is not a
  \<^verbatim>\<open>SyntaxError\<close> (the \<^verbatim>\<open>RecursionError\<close> of a text of 5000 minus signs), the issues of the
  result do not hold the syntax-error message.
\<close>

theorem C7_other_exception_no_syntax_message:
  "\<not> (\<forall>e pa code file_info rules. (\<forall>d t. parse e d code \<noteq> Parsed t) \<longrightarrow>
        (let r = fst (analyze_code e pa code file_info rules) in
           cognitive_load (ar_complexity r) = 0 \<and> nesting_depth (ar_complexity r) = 0
           \<and> ar_functions r = [] \<and> ar_classes r = [] \<and> ar_imports r = []
           \<and> ar_dependencies r = []
           \<and> syntax_error_message \<in> set (ar_issues r)))"
proof
  assume a: "\<forall>e pa code file_info rules. (\<forall>d t. parse e d code \<noteq> Parsed t) \<longrightarrow>
        (let r = fst (analyze_code e pa code file_info rules) in
           cognitive_load (ar_complexity r) = 0 \<and> nesting_depth (ar_complexity r) = 0
           \<and> ar_functions r = [] \<and> ar_classes r = [] \<and> ar_imports r = []
           \<and> ar_dependencies r = []
           \<and> syntax_error_message \<in> set (ar_issues r))"
  have "\<forall>d t. parse overflow_env d (minus_text 5000) \<noteq> Parsed t"
    by (simp add: overflow_env_def)
  with a have "syntax_error_message
                 \<in> set (ar_issues (fst (analyze_code overflow_env Map.empty (minus_text 5000)
                                          None None)))"
    unfolding Let_def by blast
  moreover have "ar_issues (fst (analyze_code overflow_env Map.empty (minus_text 5000) None None))
                 = [ast_error_message ''maximum recursion depth exceeded'']"
    by (simp add: analyze_code_def analyze_body_def analyze_complexity_def ast_step_def
        cache_key_def overflow_env_def sample_env_def Let_def)
  ultimately show False
    by (simp add: syntax_error_message_def ast_error_message_def)
qed

text \<open>
  C7 (amended). When \<^verbatim>\<open>ast.parse\<close> fails on the text, in \<^verbatim>\<open>analyze_code\<close> and, one call deeper,
  in \<^verbatim>\<open>_analyze_complexity\<close>, then \<^verbatim>\<open>analyze_code\<close> returns a result whose complexity counters
  are zero and whose functions, classes, imports and dependencies are empty. The call ends
  in the outer handler exactly when an earlier analysis is cached under the file name and
  the line comparison with it raises; the result is then the fallback result, with the one
  issue of the handler. Otherwise the issues hold the syntax-error message when the parser
  raised a \<^verbatim>\<open>SyntaxError\<close> in \<^verbatim>\<open>analyze_code\<close>, and the message of the general handler of the
  syntax-tree analysis when it raised another exception there.
\<close>

theorem C7_parse_failure_result:
  "((parse e (stack e) code = SyntaxError m \<or> parse e (stack e) code = OtherError m)
    \<and> (\<forall>t. parse e (stack e - 1) code \<noteq> Parsed t) \<longrightarrow>
      (let r = fst (analyze_code e pa code file_info rules); c = ar_complexity r in
         cognitive_load c = 0 \<and> nesting_depth c = 0
         \<and> max_method_complexity c = None \<and> total_complexity c = None
         \<and> ar_functions r = [] \<and> ar_classes r = [] \<and> ar_imports r = []
         \<and> ar_dependencies r = []
         \<and> enters_handler e pa code file_info rules =
             (case cache_key file_info of
                None \<Rightarrow> False
              | Some name \<Rightarrow>
                  (case pa name of
                     None \<Rightarrow> False
                   | Some prev \<Rightarrow>
                       isl (compare e (splitlines (snap_code prev)) (splitlines code))))
         \<and> (if enters_handler e pa code file_info rules
             then r = fallback_result \<and> ar_issues r = [fallback_message]
             else branches c = Some 0
                  \<and> (if parse e (stack e) code = SyntaxError m then syntax_error_message
                      else ast_error_message m) \<in> set (ar_issues r))))"
proof
  assume a: "(parse e (stack e) code = SyntaxError m \<or> parse e (stack e) code = OtherError m)
             \<and> (\<forall>t. parse e (stack e - 1) code \<noteq> Parsed t)"
  then have "analyze_complexity e (stack e - 1) code
                 = Inr \<lparr>cognitive_load = 0, nesting_depth = 0, branches = Some 0,
                        max_method_complexity = None, total_complexity = None\<rparr>"
    by (cases "parse e (stack e - 1) code") (simp_all add: analyze_complexity_def)
  then have cx: "analyze_complexity e (stack e - Suc 0) code
                 = Inr \<lparr>cognitive_load = 0, nesting_depth = 0, branches = Some 0,
                        max_method_complexity = None, total_complexity = None\<rparr>"
    by simp
  have eh: "enters_handler e pa code file_info rules =
             (case cache_key file_info of
                None \<Rightarrow> False
              | Some name \<Rightarrow>
                  (case pa name of
                     None \<Rightarrow> False
                   | Some prev \<Rightarrow>
                       isl (compare e (splitlines (snap_code prev)) (splitlines code))))"
    by (simp add: enters_handler_iff cx)
  show "let r = fst (analyze_code e pa code file_info rules); c = ar_complexity r in
         cognitive_load c = 0 \<and> nesting_depth c = 0
         \<and> max_method_complexity c = None \<and> total_complexity c = None
         \<and> ar_functions r = [] \<and> ar_classes r = [] \<and> ar_imports r = []
         \<and> ar_dependencies r = []
         \<and> enters_handler e pa code file_info rules =
             (case cache_key file_info of
                None \<Rightarrow> False
              | Some name \<Rightarrow>
                  (case pa name of
                     None \<Rightarrow> False
                   | Some prev \<Rightarrow>
                       isl (compare e (splitlines (snap_code prev)) (splitlines code))))
         \<and> (if enters_handler e pa code file_info rules
             then r = fallback_result \<and> ar_issues r = [fallback_message]
             else branches c = Some 0
                  \<and> (if parse e (stack e) code = SyntaxError m then syntax_error_message
                      else ast_error_message m) \<in> set (ar_issues r))"
  proof (cases "enters_handler e pa code file_info rules")
    case True
    then have "analyze_code e pa code file_info rules = (fallback_result, pa)"
      by (rule analyze_code_handler)
    then show ?thesis
      using True eh by (simp add: Let_def fallback_result_def)
  next
    case False
    then obtain x where x: "analyze_body e pa code file_info rules = Inr x"
      by (cases "analyze_body e pa code file_info rules") (auto simp: enters_handler_def)
    have r: "fst (analyze_code e pa code file_info rules) = fst x"
      using x by (simp add: analyze_code_def)
    have "cognitive_load (ar_complexity (fst x)) = 0 \<and> nesting_depth (ar_complexity (fst x)) = 0
          \<and> max_method_complexity (ar_complexity (fst x)) = None
          \<and> total_complexity (ar_complexity (fst x)) = None
          \<and> branches (ar_complexity (fst x)) = Some 0
          \<and> ar_functions (fst x) = [] \<and> ar_classes (fst x) = [] \<and> ar_imports (fst x) = []
          \<and> ar_dependencies (fst x) = []
          \<and> (if parse e (stack e) code = SyntaxError m then syntax_error_message
              else ast_error_message m) \<in> set (ar_issues (fst x))"
      using a x
      by (auto simp: analyze_body_def cx Let_def ast_step_def
          split: option.splits sum.splits)
    then show ?thesis
      using False eh r by (simp add: Let_def)
  qed
qed

theorem C7_parse_failure_result_witness:
  "parse sample_env (stack sample_env) ''def f(:'' = SyntaxError ''invalid syntax''
   \<and> \<not> enters_handler sample_env Map.empty ''def f(:'' None None
   \<and> syntax_error_message
       \<in> set (ar_issues (fst (analyze_code sample_env Map.empty ''def f(:'' None None)))
   \<and> branches (ar_complexity (fst (analyze_code sample_env Map.empty ''def f(:'' None None)))
       = Some 0
   \<and> ar_functions (fst (analyze_code sample_env Map.empty ''def f(:'' None None)) = []
   \<and> parse overflow_env (stack overflow_env) (minus_text 5000)
       = OtherError ''maximum recursion depth exceeded''
   \<and> ast_error_message ''maximum recursion depth exceeded''
       \<in> set (ar_issues (fst (analyze_code overflow_env Map.empty (minus_text 5000) None None)))
   \<and> parse raising_env (stack raising_env) ''def f(:'' = SyntaxError ''invalid syntax''
   \<and> enters_handler raising_env
         [''a.py'' \<mapsto> \<lparr>snap_code = ''x = 1'', snap_analysis = fallback_result\<rparr>]
         ''def f(:'' (Some \<lparr>fi_name = Some ''a.py''\<rparr>) None
   \<and> ar_issues (fst (analyze_code raising_env
         [''a.py'' \<mapsto> \<lparr>snap_code = ''x = 1'', snap_analysis = fallback_result\<rparr>]
         ''def f(:'' (Some \<lparr>fi_name = Some ''a.py''\<rparr>) None)) = [fallback_message]"
proof -
  have p1: "parse sample_env d ''def f(:'' = SyntaxError ''invalid syntax''" for d
    by (simp add: sample_env_def)
  have h1: "\<not> enters_handler sample_env Map.empty ''def f(:'' None None"
    by (simp add: enters_handler_iff analyze_complexity_def sample_env_def cache_key_def)
  have p2: "parse overflow_env d (minus_text 5000)
            = OtherError ''maximum recursion depth exceeded''" for d
    by (simp add: overflow_env_def)
  have h2: "\<not> enters_handler overflow_env Map.empty (minus_text 5000) None None"
    by (simp add: enters_handler_iff analyze_complexity_def overflow_env_def cache_key_def)
  have p3: "parse raising_env d ''def f(:'' = SyntaxError ''invalid syntax''" for d
    by (simp add: raising_env_def sample_env_def)
  have h3: "enters_handler raising_env
              [''a.py'' \<mapsto> \<lparr>snap_code = ''x = 1'', snap_analysis = fallback_result\<rparr>]
              ''def f(:'' (Some \<lparr>fi_name = Some ''a.py''\<rparr>) None"
    by (simp add: enters_handler_iff analyze_complexity_def raising_env_def sample_env_def
        cache_key_def splitlines_def is_linebreak_def)
  show ?thesis
    using C7_parse_failure_result
        [of sample_env "''def f(:''" "''invalid syntax''" Map.empty None None]
      C7_parse_failure_result
        [of overflow_env "minus_text 5000" "''maximum recursion depth exceeded''"
            Map.empty None None]
      C7_parse_failure_result
        [of raising_env "''def f(:''" "''invalid syntax''"
            "[''a.py'' \<mapsto> \<lparr>snap_code = ''x = 1'', snap_analysis = fallback_result\<rparr>]"
            "Some \<lparr>fi_name = Some ''a.py''\<rparr>" None]
      p1 h1 p2 h2 p3 h3
    by (simp add: Let_def fallback_result_def)
qed

text \<open>
  C8 (as stated, refuted). For a text whose tree is nested deeper than the stack has room
  for (500 minus signs before a number, with the default limit), the visitor raises in
  both calls: both return the fallback result, and no \<^verbatim>\<open>version_changes\<close> is reported.
\<close>

theorem C8_deep_tree_no_version_changes:
  "\<not> (\<forall>e pa code name rules rules'. differ_reflexive e \<longrightarrow>
        (let fi = Some \<lparr>fi_name = Some name\<rparr>;
             first = analyze_code e pa code fi rules;
             second = analyze_code e (snd first) code fi rules'
         in case ar_version_changes (fst second) of
              None \<Rightarrow> False
            | Some vc \<Rightarrow> lines_added vc = 0 \<and> lines_removed vc = 0 \<and> breaking_changes vc = []))"
proof
  assume "\<forall>e pa code name rules rules'. differ_reflexive e \<longrightarrow>
        (let fi = Some \<lparr>fi_name = Some name\<rparr>;
             first = analyze_code e pa code fi rules;
             second = analyze_code e (snd first) code fi rules'
         in case ar_version_changes (fst second) of
              None \<Rightarrow> False
            | Some vc \<Rightarrow> lines_added vc = 0 \<and> lines_removed vc = 0 \<and> breaking_changes vc = [])"
  then have "let fi = Some \<lparr>fi_name = Some ''a.py''\<rparr>;
                 first = analyze_code deep_env Map.empty (minus_text 500) fi None;
                 second = analyze_code deep_env (snd first) (minus_text 500) fi None
             in case ar_version_changes (fst second) of
                  None \<Rightarrow> False
                | Some vc \<Rightarrow> lines_added vc = 0 \<and> lines_removed vc = 0 \<and> breaking_changes vc = []"
    using differ_reflexive_deep by blast
  then show False
    by (simp add: Let_def analyze_code_handler [OF deep_env_enters_handler] fallback_result_def)
qed

text \<open>
  C8 (amended). Analyze the same text twice under the same file name, the \<^verbatim>\<open>difflib\<close>
  comparison of a sequence of lines with itself being taken to mark every line as
  unchanged. If no step of the first call raises, the second call reports a
  \<^verbatim>\<open>version_changes\<close> with no added line, no removed line and no breaking change. If a step
  of the first call raises, both calls end in the outer handler: each returns the fallback
  result, which has no \<^verbatim>\<open>version_changes\<close>, and the cache stays as it was.
\<close>

theorem C8_same_code_versions:
  assumes "differ_reflexive e"
  shows "(let fi = Some \<lparr>fi_name = Some name\<rparr>;
              first = analyze_code e pa code fi rules;
              second = analyze_code e (snd first) code fi rules'
          in if enters_handler e pa code fi rules
             then first = (fallback_result, pa) \<and> second = (fallback_result, pa)
                  \<and> ar_version_changes (fst second) = None
             else (case ar_version_changes (fst second) of
                     None \<Rightarrow> False
                   | Some vc \<Rightarrow>
                       lines_added vc = 0 \<and> lines_removed vc = 0 \<and> breaking_changes vc = []))"
proof (cases "enters_handler e pa code (Some \<lparr>fi_name = Some name\<rparr>) rules")
  case True
  then have 1: "analyze_code e pa code (Some \<lparr>fi_name = Some name\<rparr>) rules = (fallback_result, pa)"
    by (rule analyze_code_handler)
  have "enters_handler e pa code (Some \<lparr>fi_name = Some name\<rparr>) rules'"
    using True enters_handler_rules by blast
  then have 2: "analyze_code e pa code (Some \<lparr>fi_name = Some name\<rparr>) rules' = (fallback_result, pa)"
    by (rule analyze_code_handler)
  show ?thesis using True 1 2 by (simp add: Let_def fallback_result_def)
next
  case False
  let ?fi = "Some \<lparr>fi_name = Some name\<rparr>"
  let ?first = "analyze_code e pa code ?fi rules"
  let ?prev = "\<lparr>snap_code = code, snap_analysis = fst ?first\<rparr>"
  have cached: "snd ?first name = Some ?prev"
    and cx: "\<not> isl (analyze_complexity e (stack e - 1) code)"
    using analyze_code_first [OF False] by simp_all
  obtain vc where vc: "analyze_changes e code ?prev = Inr vc" "lines_added vc = 0"
    "lines_removed vc = 0" "breaking_changes vc = []"
    using analyze_changes_same [OF assms, of ?prev code] by auto
  have "ar_version_changes (fst (analyze_code e (snd ?first) code ?fi rules')) = Some vc"
    using cx cached vc(1) by (rule analyze_code_second)
  then show ?thesis using False vc by (simp add: Let_def)
qed

theorem C8_same_code_versions_witness:
  "differ_reflexive sample_env
   \<and> \<not> enters_handler sample_env Map.empty ''def f(x): pass'' (Some \<lparr>fi_name = Some ''a.py''\<rparr>) None
   \<and> (let fi = Some \<lparr>fi_name = Some ''a.py''\<rparr>;
           first = analyze_code sample_env Map.empty ''def f(x): pass'' fi None;
           second = analyze_code sample_env (snd first) ''def f(x): pass'' fi None
       in case ar_version_changes (fst second) of
            None \<Rightarrow> False
          | Some vc \<Rightarrow> lines_added vc = 0 \<and> lines_removed vc = 0 \<and> breaking_changes vc = [])
   \<and> differ_reflexive deep_env
   \<and> enters_handler deep_env Map.empty (minus_text 500) (Some \<lparr>fi_name = Some ''a.py''\<rparr>) None
   \<and> (let fi = Some \<lparr>fi_name = Some ''a.py''\<rparr>;
           first = analyze_code deep_env Map.empty (minus_text 500) fi None;
           second = analyze_code deep_env (snd first) (minus_text 500) fi None
       in ar_version_changes (fst second) = None)"
proof -
  have h: "\<not> enters_handler sample_env Map.empty ''def f(x): pass''
               (Some \<lparr>fi_name = Some ''a.py''\<rparr>) None"
    by (simp add: enters_handler_iff analyze_complexity_def sample_env_def cache_key_def
        visit.simps)
  show ?thesis
    using C8_same_code_versions
        [OF differ_reflexive_sample, of "''a.py''" Map.empty "''def f(x): pass''" None None]
      C8_same_code_versions
        [OF differ_reflexive_deep, of "''a.py''" Map.empty "minus_text 500" None None]
      h deep_env_enters_handler [of Map.empty "Some \<lparr>fi_name = Some ''a.py''\<rparr>" None]
      differ_reflexive_sample differ_reflexive_deep
    by (simp add: Let_def fallback_result_def)
qed

section \<open>Properties of the code-block detection\<close>

subsection \<open>The matcher on simple patterns\<close>

lemma concat_map_first:
  "(\<And>p. p \<in> set pre \<Longrightarrow> f p = []) \<Longrightarrow> f x = y # ys \<Longrightarrow>
   \<exists>zs. concat (map f (pre @ x # post)) = y # zs"
  by (induction pre) auto

lemma star_lazy_steps:
  assumes step: "\<And>j g. f (j, g) = (if j < n then [(Suc j, g)] else [])"
  shows "i \<le> n \<Longrightarrow> star_lazy f k (i, g) = map (\<lambda>j. (j, g)) [i..<Suc (min n (i + k))]"
proof (induction k arbitrary: i)
  case 0
  then show ?case by (simp add: min_def)
next
  case (Suc k)
  show ?case
  proof (cases "i < n")
    case True
    then have "star_lazy f (Suc k) (i, g) = (i, g) # star_lazy f k (Suc i, g)"
      by (simp add: step)
    also have "star_lazy f k (Suc i, g) = map (\<lambda>j. (j, g)) [Suc i..<Suc (min n (Suc i + k))]"
      using True by (intro Suc.IH) simp
    finally show ?thesis
      using True by (simp add: upt_conv_Cons)
  next
    case False
    then have "i = n" using Suc.prems by simp
    then show ?thesis by (simp add: step)
  qed
qed

lemma ms_LazyStar_AnyChar:
  "i \<le> length s \<Longrightarrow> ms (LazyStar AnyChar) s (i, g) = map (\<lambda>j. (j, g)) [i..<Suc (length s)]"
proof -
  assume i: "i \<le> length s"
  have "star_lazy (ms AnyChar s) (length s) (i, g)
        = map (\<lambda>j. (j, g)) [i..<Suc (min (length s) (i + length s))]"
    using i by (intro star_lazy_steps) (simp_all add: AnyChar_def)
  then show ?thesis by simp
qed

lemma star_greedy_run:
  assumes step: "\<And>j g. f (j, g) = (if P j then [(Suc j, g)] else [])"
  shows "(\<And>j. i \<le> j \<Longrightarrow> j < i + r \<Longrightarrow> P j) \<Longrightarrow> \<not> P (i + r) \<Longrightarrow> r \<le> k \<Longrightarrow>
         \<exists>zs. star_greedy f k (i, g) = (i + r, g) # zs"
proof (induction r arbitrary: i k)
  case 0
  then have "f (i, g) = []" by (simp add: step)
  then show ?case by (cases k) simp_all
next
  case (Suc r)
  obtain k' where k: "k = Suc k'" using Suc.prems(3) by (cases k) auto
  have Pi: "P i" using Suc.prems(1) [of i] by simp
  have "\<exists>zs. star_greedy f k' (Suc i, g) = (Suc i + r, g) # zs"
  proof (rule Suc.IH)
    fix j assume "Suc i \<le> j" "j < Suc i + r"
    then show "P j" using Suc.prems(1) [of j] by simp
  next
    show "\<not> P (Suc i + r)" using Suc.prems(2) by simp
  next
    show "r \<le> k'" using Suc.prems(3) k by simp
  qed
  then obtain zs where "star_greedy f k' (Suc i, g) = (Suc i + r, g) # zs" by blast
  then show ?case using Pi k by (simp add: step)
qed

lemma ms_W_step: "ms W s (j, g) = (if word_at s j then [(Suc j, g)] else [])"
  by (simp add: W_def word_at_def)

lemma ms_Plus_W_run:
  assumes "\<And>j. i \<le> j \<Longrightarrow> j < i + Suc r \<Longrightarrow> word_at s j" and "\<not> word_at s (i + Suc r)"
  shows "\<exists>zs. ms (Plus W) s (i, g) = (i + Suc r, g) # zs"
proof -
  have wi: "word_at s i" using assms(1) [of i] by simp
  have "i + r < length s" using assms(1) [of "i + r"] by (simp add: word_at_def)
  then have r: "r \<le> length s" by simp
  have "\<exists>zs. star_greedy (ms W s) (length s) (Suc i, g) = (Suc i + r, g) # zs"
  proof (rule star_greedy_run [where P = "word_at s"])
    show "ms W s (j, g) = (if word_at s j then [(Suc j, g)] else [])" for j g
      by (rule ms_W_step)
  next
    fix j assume "Suc i \<le> j" "j < Suc i + r"
    then show "word_at s j" using assms(1) [of j] by simp
  next
    show "\<not> word_at s (Suc i + r)" using assms(2) by simp
  next
    show "r \<le> length s" by (rule r)
  qed
  then show ?thesis using wi by (simp add: Plus_def ms_W_step)
qed

lemma search_at_found: "ms r s (i, []) = m # zs \<Longrightarrow> search_at r s i k = Some (i, m)"
  by (cases k) simp_all

subsection \<open>The text of a fenced block\<close>

lemma length_fence: "length fence = 3"
  by (simp add: fence_def)

lemma length_fenced: "length (fenced lang body) = length lang + length body + 8"
  by (simp add: fenced_def length_fence)

lemma fence_nth: "k < 3 \<Longrightarrow> fence ! k = CHR 0x60"
proof -
  assume "k < 3"
  then have "k = 0 \<or> k = 1 \<or> k = 2" by auto
  then show ?thesis by (auto simp: fence_def)
qed

lemma fenced_nth_head:
  "j \<le> length lang \<Longrightarrow> fenced lang body ! (3 + j) = (lang @ [nl]) ! j"
  by (simp add: fenced_def nth_append length_fence)

lemma fenced_nth_body:
  "j < length body \<Longrightarrow> fenced lang body ! (4 + length lang + j) = body ! j"
  by (simp add: fenced_def nth_append length_fence)

lemma fenced_nth_close: "fenced lang body ! (4 + length lang + length body) = nl"
  by (simp add: fenced_def nth_append length_fence)

lemma fenced_drop_tag: "drop 3 (fenced lang body) = lang @ [nl] @ body @ [nl] @ fence"
  by (simp add: fenced_def length_fence)

lemma fenced_drop_body:
  "drop (4 + length lang) (fenced lang body) = body @ [nl] @ fence"
  by (simp add: fenced_def length_fence)

lemma fenced_drop_close:
  "drop (4 + length lang + length body) (fenced lang body) = [nl] @ fence"
  by (simp add: fenced_def length_fence)

lemma fence_window:
  assumes "take 3 (drop j s) = fence" and "k < 3"
  shows "j + k < length s \<and> s ! (j + k) = CHR 0x60"
proof -
  have "length (take 3 (drop j s)) = 3" using assms(1) by (simp add: length_fence)
  then have len: "j + 3 \<le> length s" by simp
  have "take 3 (drop j s) ! k = s ! (j + k)" using assms(2) len by simp
  then show ?thesis using assms len fence_nth [of k] by simp
qed

lemma window_contains: "take (length sub) (drop j s) = sub \<Longrightarrow> contains s sub"
proof -
  assume a: "take (length sub) (drop j s) = sub"
  have "contains (drop j s) sub"
  proof (cases "drop j s")
    case Nil
    then show ?thesis using a by simp
  next
    case (Cons c r)
    then show ?thesis using a by simp
  qed
  then have "contains (take j s @ drop j s) sub" by (rule contains_append_left)
  then show ?thesis by simp
qed

lemma backtick_not_word: "\<not> is_word (CHR 0x60)"
  by (simp add: is_word_def is_word_code_def)

lemma nl_not_word: "\<not> is_word nl"
  by (simp add: is_word_def is_word_code_def nl_def)

text \<open>Between the opening fence and the closing one there is no fence.\<close>

lemma no_fence_inside:
  assumes w: "\<And>c. c \<in> set lang \<Longrightarrow> is_word c" and b: "\<not> contains body fence"
    and j: "3 \<le> j" "j < length lang + length body + 5"
  shows "take 3 (drop j (fenced lang body)) \<noteq> fence"
proof
  let ?s = "fenced lang body"
  assume a: "take 3 (drop j ?s) = fence"
  have win: "?s ! (j + k) = CHR 0x60" if "k < 3" for k
    using fence_window [OF a that] by simp
  show False
  proof (cases "j \<le> 3 + length lang")
    case True
    define i where "i = j - 3"
    have i: "j = 3 + i" "i \<le> length lang"
      using True j(1) by (simp_all add: i_def)
    have "?s ! j = (lang @ [nl]) ! i" using i fenced_nth_head by simp
    moreover have "(lang @ [nl]) ! i \<in> set (lang @ [nl])"
      by (rule nth_mem) (use i in simp)
    ultimately have "is_word (?s ! j) \<or> ?s ! j = nl" using w by auto
    moreover have "?s ! j = CHR 0x60" using win [of 0] by simp
    ultimately show False using backtick_not_word by (auto simp: nl_def)
  next
    case False
    define i where "i = j - (4 + length lang)"
    have i: "j = 4 + length lang + i"
      using False by (simp add: i_def)
    show False
    proof (cases "i + 3 \<le> length body")
      case True
      have "take 3 (drop i body) = fence"
      proof (rule nth_equalityI)
        show "length (take 3 (drop i body)) = length fence"
          using True by (simp add: length_fence)
      next
        fix k assume "k < length (take 3 (drop i body))"
        then have k: "k < 3" by simp
        then have "take 3 (drop i body) ! k = body ! (i + k)" using True by simp
        also have "\<dots> = ?s ! (4 + length lang + (i + k))"
          using True k by (simp add: fenced_nth_body)
        also have "\<dots> = CHR 0x60" using win [of k] k i by (simp add: add.assoc)
        finally show "take 3 (drop i body) ! k = fence ! k" using k by (simp add: fence_nth)
      qed
      then have "contains body fence"
        using window_contains [of fence i body] by (simp add: length_fence)
      then show False using b by simp
    next
      case nb: False
      have "i \<le> length body" using j(2) i by simp
      define k where "k = length body - i"
      have k: "i + k = length body" "k < 3"
        using nb \<open>i \<le> length body\<close> by (simp_all add: k_def)
      have "?s ! (j + k) = nl" using i k fenced_nth_close [of lang body] by (simp add: add.assoc)
      then show False using win [of k] k by (simp add: nl_def)
    qed
  qed
qed

subsection \<open>The two patterns on a fenced block\<close>

lemma take_Suc_drop: "take (Suc m) (drop j s) = c # w \<Longrightarrow> take m (drop (Suc j) s) = w"
proof -
  assume a: "take (Suc m) (drop j s) = c # w"
  then obtain r where r: "drop j s = c # r" by (cases "drop j s") auto
  then have "drop (Suc j) s = r" by (metis drop_Suc list.sel(3) tl_drop)
  then show ?thesis using a r by simp
qed

lemma fenced_word_run:
  assumes "\<And>c. c \<in> set lang \<Longrightarrow> is_word c"
  shows "3 \<le> j \<Longrightarrow> j < 3 + length lang \<Longrightarrow> word_at (fenced lang body) j"
    and "\<not> word_at (fenced lang body) (3 + length lang)"
proof -
  show "word_at (fenced lang body) j" if "3 \<le> j" "j < 3 + length lang"
  proof -
    define i where "i = j - 3"
    have i: "j = 3 + i" "i < length lang" using that by (simp_all add: i_def)
    have "fenced lang body ! j = (lang @ [nl]) ! i" using i fenced_nth_head by simp
    also have "\<dots> = lang ! i" using i by (simp add: nth_append)
    finally have "is_word (fenced lang body ! j)" using assms i by simp
    then show ?thesis using i by (simp add: word_at_def length_fenced)
  qed
  have "fenced lang body ! (3 + length lang) = (lang @ [nl]) ! length lang"
    by (rule fenced_nth_head) simp
  then show "\<not> word_at (fenced lang body) (3 + length lang)"
    using nl_not_word by (simp add: word_at_def)
qed

lemma fence_at_start: "take 3 (drop 0 (fenced lang body)) = fence"
  by (simp add: fenced_def length_fence)

lemma fence_at_end:
  "take 3 (drop (5 + length lang + length body) (fenced lang body)) = fence"
proof -
  have "drop (5 + length lang + length body) (fenced lang body)
        = drop 1 (drop (4 + length lang + length body) (fenced lang body))"
    by (simp add: add.commute add.left_commute)
  then show ?thesis by (simp only: fenced_drop_close) (simp add: length_fence)
qed

lemma no_close_inside:
  assumes w: "\<And>c. c \<in> set lang \<Longrightarrow> is_word c" and b: "\<not> contains body fence"
    and j: "3 \<le> j" "j < length lang + length body + 4"
  shows "take 4 (drop j (fenced lang body)) \<noteq> nl # fence"
proof
  assume "take 4 (drop j (fenced lang body)) = nl # fence"
  then have "take (Suc 3) (drop j (fenced lang body)) = nl # fence" by (simp add: eval_nat_numeral)
  then have "take 3 (drop (Suc j) (fenced lang body)) = fence" by (rule take_Suc_drop)
  moreover have "take 3 (drop (Suc j) (fenced lang body)) \<noteq> fence"
    by (rule no_fence_inside [OF w b]) (use j in simp_all)
  ultimately show False by simp
qed

lemma ms_Group_LazyStar:
  "i \<le> length s \<Longrightarrow>
   ms (Group k (LazyStar AnyChar)) s (i, g) = map (\<lambda>j. (j, (k, i, j) # g)) [i..<Suc (length s)]"
proof -
  assume i: "i \<le> length s"
  have "ms (Group k (LazyStar AnyChar)) s (i, g)
        = map (\<lambda>e. (fst e, (k, i, fst e) # snd e)) (ms (LazyStar AnyChar) s (i, g))"
    by (simp only: ms.simps(8) fst_conv)
  also have "\<dots> = map (\<lambda>e. (fst e, (k, i, fst e) # snd e))
                     (map (\<lambda>j. (j, g)) [i..<Suc (length s)])"
    by (simp only: ms_LazyStar_AnyChar [OF i])
  also have "\<dots> = map (\<lambda>j. (j, (k, i, j) # g)) [i..<Suc (length s)]"
    by (simp only: map_map comp_def fst_conv snd_conv)
  finally show ?thesis .
qed

lemma first_match_with_lang:
  assumes ne: "lang \<noteq> []" and w: "\<And>c. c \<in> set lang \<Longrightarrow> is_word c"
    and b: "\<not> contains body fence"
  shows "\<exists>zs. ms pattern_with_lang (fenced lang body) (0, []) =
           (length lang + length body + 8,
            [(2, 4 + length lang, 4 + length lang + length body), (1, 3, 3 + length lang)]) # zs"
proof -
  let ?s = "fenced lang body"
  let ?L = "length lang"
  let ?C = "length body"
  let ?close = "Lit (nl # fence)"
  let ?Z = "Seq (Group 2 (LazyStar AnyChar)) ?close"
  let ?g1 = "[(1, 3, 3 + ?L)] :: (nat \<times> nat \<times> nat) list"
  obtain r where r: "?L = Suc r" using ne by (cases lang) auto
  \<comment> \<open>the language tag\<close>
  have "\<exists>zs. ms (Plus W) ?s (3, []) = (3 + Suc r, []) # zs"
  proof (rule ms_Plus_W_run)
    fix j assume "3 \<le> j" "j < 3 + Suc r"
    then show "word_at ?s j" using fenced_word_run(1) [OF w] r by simp
  next
    have "\<not> word_at ?s (3 + length lang)" by (rule fenced_word_run(2) [OF w])
    then show "\<not> word_at ?s (3 + Suc r)" using r by simp
  qed
  then obtain zs1 where "ms (Plus W) ?s (3, []) = (3 + ?L, []) # zs1" using r by auto
  then obtain zs2 where tag: "ms (Opt (Group 1 (Plus W))) ?s (3, []) = (3 + ?L, ?g1) # zs2"
    by (simp add: Opt_def)
  \<comment> \<open>the newline after the tag\<close>
  have "take 1 (drop (3 + ?L) ?s) = [nl]"
    by (simp add: fenced_def length_fence)
  then have nl1: "ms (Lit [nl]) ?s (3 + ?L, ?g1) = [(4 + ?L, ?g1)]" by simp
  \<comment> \<open>the body, up to the first closing fence\<close>
  have split: "[4 + ?L..<Suc (length ?s)]
               = [4 + ?L..<4 + ?L + ?C] @ (4 + ?L + ?C) # [Suc (4 + ?L + ?C)..<Suc (length ?s)]"
  proof -
    have "[4 + ?L..<Suc (length ?s)] = [4 + ?L..<4 + ?L + ?C] @ [4 + ?L + ?C..<Suc (length ?s)]"
      using upt_add_eq_append [of "4 + ?L" "4 + ?L + ?C" "Suc (length ?s) - (4 + ?L + ?C)"]
      by (simp add: length_fenced)
    also have "[4 + ?L + ?C..<Suc (length ?s)]
               = (4 + ?L + ?C) # [Suc (4 + ?L + ?C)..<Suc (length ?s)]"
      by (rule upt_conv_Cons) (simp add: length_fenced)
    finally show ?thesis .
  qed
  have grp: "ms (Group 2 (LazyStar AnyChar)) ?s (4 + ?L, ?g1)
             = map (\<lambda>j. (j, (2, 4 + ?L, j) # ?g1)) [4 + ?L..<4 + ?L + ?C]
               @ (4 + ?L + ?C, (2, 4 + ?L, 4 + ?L + ?C) # ?g1)
               # map (\<lambda>j. (j, (2, 4 + ?L, j) # ?g1)) [Suc (4 + ?L + ?C)..<Suc (length ?s)]"
  proof -
    have le: "4 + ?L \<le> length ?s" by (simp add: length_fenced)
    show ?thesis by (simp only: ms_Group_LazyStar [OF le] split map_append list.map)
  qed
  have pre: "ms ?close ?s p = []"
    if "p \<in> set (map (\<lambda>j. (j, (2, 4 + ?L, j) # ?g1)) [4 + ?L..<4 + ?L + ?C])" for p
  proof -
    from that obtain j where j: "p = (j, (2, 4 + ?L, j) # ?g1)" "4 + ?L \<le> j" "j < 4 + ?L + ?C"
      by auto
    have "take 4 (drop j ?s) \<noteq> nl # fence"
      by (rule no_close_inside [OF w b]) (use j in simp_all)
    then show ?thesis using j by (simp add: length_fence)
  qed
  have "take 4 (drop (4 + ?L + ?C) ?s) = nl # fence"
    by (simp only: fenced_drop_close) (simp add: length_fence)
  then have at: "ms ?close ?s (4 + ?L + ?C, (2, 4 + ?L, 4 + ?L + ?C) # ?g1)
                 = [(?L + ?C + 8, (2, 4 + ?L, 4 + ?L + ?C) # ?g1)]"
    by (simp add: length_fence)
  obtain zs3 where body: "ms ?Z ?s (4 + ?L, ?g1) = (?L + ?C + 8, (2, 4 + ?L, 4 + ?L + ?C) # ?g1) # zs3"
    using concat_map_first [of _ "ms ?close ?s", OF pre at] unfolding ms.simps(4) grp by blast
  \<comment> \<open>the whole pattern\<close>
  have "ms (Lit fence) ?s (0, []) = [(3, [])]"
    using fence_at_start [of lang body] by (simp add: length_fence)
  then have "ms pattern_with_lang ?s (0, [])
             = concat (map (ms (Seq (Lit [nl]) ?Z) ?s) (ms (Opt (Group 1 (Plus W))) ?s (3, [])))"
    by (simp add: pattern_with_lang_def)
  also have "\<dots> = ms ?Z ?s (4 + ?L, ?g1) @ concat (map (ms (Seq (Lit [nl]) ?Z) ?s) zs2)"
    by (simp only: tag list.map concat.simps ms.simps(4) nl1) simp
  finally show ?thesis using body by simp
qed

lemma first_match_without_lang:
  assumes ne: "lang \<noteq> []" and w: "\<And>c. c \<in> set lang \<Longrightarrow> is_word c"
    and b: "\<not> contains body fence"
  shows "\<exists>g zs. ms pattern_without_lang (fenced lang body) (0, []) =
           (length lang + length body + 8, g) # zs"
proof -
  let ?s = "fenced lang body"
  let ?L = "length lang"
  let ?C = "length body"
  let ?K = "Seq (Opt (Lit [nl])) (Lit fence)"
  let ?f = "\<lambda>j. (j, [(1, 3, j)] :: (nat \<times> nat \<times> nat) list)"
  \<comment> \<open>no newline right after the opening fence\<close>
  have "word_at ?s 3"
    by (rule fenced_word_run(1) [OF w]) (use ne in simp_all)
  then have "?s ! 3 \<noteq> nl" using nl_not_word by (auto simp: word_at_def)
  moreover have "3 < length ?s" by (simp add: length_fenced)
  ultimately have "take 1 (drop 3 ?s) \<noteq> [nl]"
    by (simp add: take_Suc_conv_app_nth hd_drop_conv_nth take_Suc)
  then have opt: "ms (Opt (Lit [nl])) ?s (3, []) = [(3, [])]"
    by (simp add: Opt_def)
  \<comment> \<open>the lazy group stops at the newline before the closing fence\<close>
  have split: "[3..<Suc (length ?s)]
               = [3..<4 + ?L + ?C] @ (4 + ?L + ?C) # [Suc (4 + ?L + ?C)..<Suc (length ?s)]"
  proof -
    have "[3..<Suc (length ?s)] = [3..<3 + (1 + ?L + ?C)] @ [3 + (1 + ?L + ?C)..<Suc (length ?s)]"
      using upt_add_eq_append [of 3 "3 + (1 + ?L + ?C)" "Suc (length ?s) - (4 + ?L + ?C)"]
      by (simp add: length_fenced)
    also have "[3 + (1 + ?L + ?C)..<Suc (length ?s)]
               = (3 + (1 + ?L + ?C)) # [Suc (3 + (1 + ?L + ?C))..<Suc (length ?s)]"
      by (rule upt_conv_Cons) (simp add: length_fenced)
    finally show ?thesis by (simp add: add.assoc)
  qed
  have grp: "ms (Group 1 (LazyStar AnyChar)) ?s (3, [])
             = map ?f [3..<4 + ?L + ?C] @ ?f (4 + ?L + ?C)
               # map ?f [Suc (4 + ?L + ?C)..<Suc (length ?s)]"
  proof -
    have le: "3 \<le> length ?s" by (simp add: length_fenced)
    show ?thesis by (simp only: ms_Group_LazyStar [OF le] split map_append list.map)
  qed
  have pre: "ms ?K ?s p = []" if "p \<in> set (map ?f [3..<4 + ?L + ?C])" for p
  proof -
    from that obtain j where j: "p = ?f j" "3 \<le> j" "j < 4 + ?L + ?C" by auto
    have 1: "take 3 (drop j ?s) \<noteq> fence"
      by (rule no_fence_inside [OF w b]) (use j in simp_all)
    have 2: "take 3 (drop (Suc j) ?s) \<noteq> fence"
      by (rule no_fence_inside [OF w b]) (use j in simp_all)
    show ?thesis using 1 2 j(1) by (simp add: Opt_def length_fence)
  qed
  have c1: "take 1 (drop (4 + ?L + ?C) ?s) = [nl]"
    by (simp only: fenced_drop_close) simp
  have c2: "take 3 (drop (Suc (4 + ?L + ?C)) ?s) = fence"
    using fence_at_end [of lang body] by (simp add: add.commute add.left_commute)
  have c3: "take 3 (drop (4 + ?L + ?C) ?s) \<noteq> fence"
    by (rule no_fence_inside [OF w b]) simp_all
  have at: "ms ?K ?s (?f (4 + ?L + ?C)) = [(?L + ?C + 8, [(1, 3, 4 + ?L + ?C)])]"
    using c1 c2 c3 by (simp add: Opt_def length_fence)
  obtain zs where body:
    "ms (Seq (Group 1 (LazyStar AnyChar)) ?K) ?s (3, []) = (?L + ?C + 8, [(1, 3, 4 + ?L + ?C)]) # zs"
    using concat_map_first [of _ "ms ?K ?s", OF pre at] unfolding ms.simps(4) grp by blast
  have "ms (Lit fence) ?s (0, []) = [(3, [])]"
    using fence_at_start [of lang body] by (simp add: length_fence)
  then have "ms pattern_without_lang ?s (0, [])
             = concat (map (ms (Seq (Group 1 (LazyStar AnyChar)) ?K) ?s)
                 (ms (Opt (Lit [nl])) ?s (3, [])))"
    by (simp add: pattern_without_lang_def)
  also have "\<dots> = ms (Seq (Group 1 (LazyStar AnyChar)) ?K) ?s (3, [])"
    by (simp only: opt list.map concat.simps append_Nil2)
  finally show ?thesis using body by simp
qed

lemma no_match_at_end:
  "r = Seq (Lit fence) r' \<Longrightarrow> search_at r s (length s) 0 = None"
  by (simp add: length_fence fence_def)

text \<open>A pattern that starts with the fence and whose first match covers the whole text
  has that match only.\<close>

lemma finditer_whole:
  assumes "ms r s (0, []) = (length s, g) # zs" and "r = Seq (Lit fence) r'" and "s \<noteq> []"
  shows "re_finditer r s = [(0, (length s, g))]"
proof -
  obtain k where k: "length s = Suc k" using assms(3) by (cases s) auto
  have first: "search_at r s 0 (length s) = Some (0, (length s, g))"
    using assms(1) by (rule search_at_found)
  have last: "search_at r s (length s) 0 = None"
    using assms(2) by (rule no_match_at_end)
  have "finditer_from r s (length s) (Suc k) = []"
    using last by simp
  then show ?thesis
    using first k by (simp add: re_finditer_def)
qed

lemma pattern_with_lang_shape: "\<exists>r'. pattern_with_lang = Seq (Lit fence) r'"
  by (simp add: pattern_with_lang_def)

lemma pattern_without_lang_shape: "\<exists>r'. pattern_without_lang = Seq (Lit fence) r'"
  by (simp add: pattern_without_lang_def)

lemma detect_fenced:
  assumes ne: "lang \<noteq> []" and w: "\<And>c. c \<in> set lang \<Longrightarrow> is_word c"
    and b: "\<not> contains body fence"
  shows "detect_code_blocks (fenced lang body)
         = [\<lparr>cb_language = lang, cb_code = strip body, cb_original = fenced lang body\<rparr>]"
proof -
  let ?s = "fenced lang body"
  let ?L = "length lang"
  let ?C = "length body"
  let ?g = "[(2, 4 + ?L, 4 + ?L + ?C), (1, 3, 3 + ?L)] :: (nat \<times> nat \<times> nat) list"
  have len: "length ?s = ?L + ?C + 8" by (rule length_fenced)
  then have sne: "?s \<noteq> []" by auto
  obtain zs where "ms pattern_with_lang ?s (0, []) = (length ?s, ?g) # zs"
    using first_match_with_lang [OF ne w b] len by auto
  then have it1: "re_finditer pattern_with_lang ?s = [(0, (length ?s, ?g))]"
    using pattern_with_lang_shape sne by (blast intro: finditer_whole)
  obtain g' zs' where "ms pattern_without_lang ?s (0, []) = (length ?s, g') # zs'"
    using first_match_without_lang [OF ne w b] len by auto
  then have it2: "re_finditer pattern_without_lang ?s = [(0, (length ?s, g'))]"
    using pattern_without_lang_shape sne by (blast intro: finditer_whole)
  have g1: "group_text 1 ?s (0, (length ?s, ?g)) = lang"
    by (simp add: group_text_def match_group_def fenced_drop_tag)
  have g2: "group_text 2 ?s (0, (length ?s, ?g)) = body"
    by (simp add: group_text_def match_group_def fenced_drop_body)
  have w1: "whole_match ?s (0, (length ?s, g'')) = ?s" for g''
    by (simp add: whole_match_def)
  have blk: "block_with_lang ?s (0, (length ?s, ?g))
             = \<lparr>cb_language = lang, cb_code = strip body, cb_original = ?s\<rparr>"
    using ne by (simp only: block_with_lang_def g1 g2 w1) simp
  show ?thesis
    by (simp only: detect_code_blocks_def it1 it2 list.map blk blocks_without_lang.simps w1)
       simp
qed

lemma py_is_tag: "''py'' \<noteq> [] \<and> list_all is_word ''py''"
  by (simp add: is_word_def is_word_code_def)

lemma detect_indented:
  "detect_code_blocks (fenced ''py'' '' x'')
   = [\<lparr>cb_language = ''py'', cb_code = ''x'', cb_original = fenced ''py'' '' x''\<rparr>]"
proof -
  have "\<not> contains '' x'' fence" by (simp add: fence_def)
  moreover have "strip '' x'' = ''x''" by (simp add: strip_def is_space_def space_codes_def)
  moreover have "is_word c" if "c \<in> set ''py''" for c
    using that by (auto simp: is_word_def is_word_code_def)
  ultimately show ?thesis using detect_fenced [of "''py''" "'' x''"] by simp
qed

text \<open>With a fence inside the enclosed code the second pattern finds a block of its own.\<close>

lemma detect_inner_fence:
  "map cb_code (detect_code_blocks (fenced ''py'' ''a ``` b''))
   = [''a ``` b'', ''py'' @ [nl] @ ''a'']"
  by code_simp

text \<open>
  C4 (as stated, refuted). For the block with tag \<^verbatim>\<open>py\<close> and enclosed code \<^verbatim>\<open>" x"\<close> the code
  of the block found is \<^verbatim>\<open>"x"\<close>, not the enclosed code.
\<close>

theorem C4_code_not_verbatim:
  "\<not> (\<forall>lang body. lang \<noteq> [] \<and> list_all is_word lang \<and> \<not> contains body fence \<longrightarrow>
        map (\<lambda>b. (cb_language b, cb_code b)) (detect_code_blocks (fenced lang body))
        = [(lang, body)])"
proof
  assume "\<forall>lang body. lang \<noteq> [] \<and> list_all is_word lang \<and> \<not> contains body fence \<longrightarrow>
        map (\<lambda>b. (cb_language b, cb_code b)) (detect_code_blocks (fenced lang body))
        = [(lang, body)]"
  moreover have "\<not> contains '' x'' fence" by (simp add: fence_def)
  ultimately have "map (\<lambda>b. (cb_language b, cb_code b)) (detect_code_blocks (fenced ''py'' '' x''))
        = [(''py'', '' x'')]"
    using py_is_tag by blast
  then show False by (simp add: detect_indented)
qed

text \<open>
  C4 (amended). For a snippet that is one fenced block, with a tag that is a non-empty
  run of word characters and an enclosed code that holds no fence, \<^verbatim>\<open>_detect_code_blocks\<close>
  returns exactly one block: its language is the tag, its code is the enclosed code with
  the white space at both ends stripped, its original text is the snippet.
\<close>

theorem C4_fenced_block_stripped:
  assumes "lang \<noteq> []" and "list_all is_word lang" and "\<not> contains body fence"
  shows "detect_code_blocks (fenced lang body)
         = [\<lparr>cb_language = lang, cb_code = strip body, cb_original = fenced lang body\<rparr>]"
proof (rule detect_fenced)
  show "lang \<noteq> []" by (rule assms(1))
next
  fix c assume "c \<in> set lang"
  then show "is_word c" using assms(2) by (simp add: list_all_iff)
next
  show "\<not> contains body fence" by (rule assms(3))
qed

theorem C4_fenced_block_witness:
  "''py'' \<noteq> [] \<and> list_all is_word ''py'' \<and> \<not> contains '' x = 1 '' fence
   \<and> detect_code_blocks (fenced ''py'' '' x = 1 '')
       = [\<lparr>cb_language = ''py'', cb_code = ''x = 1'', cb_original = fenced ''py'' '' x = 1 ''\<rparr>]"
proof -
  have c: "\<not> contains '' x = 1 '' fence" by (simp add: fence_def)
  have s: "strip '' x = 1 '' = ''x = 1''"
    by (simp add: strip_def is_space_def space_codes_def)
  show ?thesis
    using C4_fenced_block_stripped [of "''py''" "'' x = 1 ''"] py_is_tag c s by simp
qed

end
